theory Spec2Isabelle
  imports Complex_Main "HOL-Library.AList"
begin

section \<open>Values shared by all components\<close>

text \<open>
  JavaScript values that cross a boundary (tool arguments, protocol parameters, results).
  A property that is absent reads as \<open>JUndefined\<close>. Numbers are kept as rationals:
  every IEEE double is one, and the arithmetic the sources perform on them here
  (one halving, one addition) is exact on the values the claims talk about.
\<close>

datatype json =
    JUndefined
  | JNull
  | JBool bool
  | JNum rat
  | JStr string
  | JArr "json list"
  | JObj "(string \<times> json) list"

text \<open>
  Property read \<open>v.k\<close> on an object; a key that is not there reads as \<open>JUndefined\<close>.
  On \<open>undefined\<close> and \<open>null\<close> JavaScript raises a \<open>TypeError\<close> instead. Where the
  sources read a property of what the host answered (\<open>evaluate\<close>, \<open>goBack\<close>,
  \<open>goForward\<close>, \<open>captureScreenshot\<close>) that case is written out; everywhere else
  \<open>field\<close> is used on values that the TypeScript types of the sources declare to be
  objects.
\<close>

fun field :: "json \<Rightarrow> string \<Rightarrow> json" where
  "field (JObj kvs) k = (case map_of kvs k of None \<Rightarrow> JUndefined | Some v \<Rightarrow> v)"
| "field _ k = JUndefined"

text \<open>JavaScript truthiness, as used by \<open>if (v)\<close>, \<open>!v\<close> and \<open>v || d\<close>.\<close>

fun truthy :: "json \<Rightarrow> bool" where
  "truthy JUndefined = False"
| "truthy JNull = False"
| "truthy (JBool b) = b"
| "truthy (JNum n) = (n \<noteq> 0)"
| "truthy (JStr s) = (s \<noteq> [])"
| "truthy (JArr _) = True"
| "truthy (JObj _) = True"

text \<open>
  What a \<open>throw\<close> or a rejected promise carries. Every \<open>throw\<close> in the sources is
  \<open>new Error(message)\<close>; the handlers nevertheless test \<open>error instanceof Error\<close>,
  so a thrown value that is not an \<open>Error\<close> is kept as a second case.
\<close>

datatype thrown = Error string | NonError

section \<open>Scripts sent to the page\<close>

text \<open>
  \<open>Page\<close> builds each script from a template literal and sends it as the
  \<open>expression\<close> of \<open>Runtime.evaluate\<close>. A script is kept as the template it comes from
  together with the values spliced into it. \<open>clickElement\<close> and \<open>selectOption\<close> splice
  the selector twice: once through \<open>JSON.stringify\<close>, as the argument of
  \<open>document.querySelector\<close>, and once as it is, between the single quotes of the error
  message; the two occurrences are the two string arguments below. The other templates
  of \<open>Page\<close> splice the selector through \<open>JSON.stringify\<close> only, or two numbers, or
  nothing; \<open>OtherScript\<close> is an expression that the caller of \<open>evaluate\<close> wrote.
\<close>

record select_options =
  so_value :: "string option"
  so_text :: "string option"
  so_index :: "int option"

datatype script =
    ClickElementScript string string
  | SelectOptionScript string string select_options
  | ClearScript string
  | ScrollIntoViewScript string
  | ScrollToScript json json
  | ScrollPositionScript
  | PageInfoScript
  | ViewportSizeScript
  | OtherScript string

text \<open>
  Parameters of a protocol command: a plain object, or those of \<open>Runtime.evaluate\<close>
  (\<open>returnByValue\<close> and \<open>awaitPromise\<close> are always true).
\<close>

datatype cdp_params = NoParams | Params "(string \<times> json) list" | Evaluate script

section \<open>Session transport (\<open>ExtensionTransport\<close>)\<close>

text \<open>
  The calls a transport makes on the host's \<open>chrome.debugger\<close> object, in the order they
  are issued. The host itself is outside the repository: it is a parameter that maps the
  calls made so far and the next call to that call's outcome, so every theorem below
  holds for every host.
\<close>

datatype host_call =
    DebuggerAttach int string
  | DebuggerDetach int
  | DebuggerSendCommand int string cdp_params
  | OnEventAddListener int
  | OnDetachAddListener int
  | OnEventRemoveListener int
  | OnDetachRemoveListener int

type_synonym host = "host_call list \<Rightarrow> host_call \<Rightarrow> thrown + json"

record transport =
  tabId :: int
  attached :: bool
  eventListeners :: "nat list"

definition new_transport :: "int \<Rightarrow> transport" where
  "new_transport tab = \<lparr>tabId = tab, attached = False, eventListeners = []\<rparr>"

definition attach :: "host \<Rightarrow> transport \<Rightarrow> host_call list \<Rightarrow> (thrown + unit) \<times> transport \<times> host_call list" where
  "attach h t hlog =
     (if attached t then (Inr (), t, hlog)
      else (case h hlog (DebuggerAttach (tabId t) ''1.3'') of
              Inl e \<Rightarrow> (Inl e, t, hlog @ [DebuggerAttach (tabId t) ''1.3''])
            | Inr _ \<Rightarrow>
                (Inr (), t\<lparr>attached := True\<rparr>,
                 hlog @ [DebuggerAttach (tabId t) ''1.3'',
                        OnEventAddListener (tabId t),
                        OnDetachAddListener (tabId t)])))"

text \<open>
  \<open>detach\<close> wraps the host call in \<open>try { ... } catch (e) { }\<close>: both outcomes of the
  host call continue with \<open>this.attached = false\<close>.
\<close>

definition detach :: "host \<Rightarrow> transport \<Rightarrow> host_call list \<Rightarrow> (thrown + unit) \<times> transport \<times> host_call list" where
  "detach h t hlog =
     (if \<not> attached t then (Inr (), t, hlog)
      else (let log1 = hlog @ [OnEventRemoveListener (tabId t), OnDetachRemoveListener (tabId t)]
            in (case h log1 (DebuggerDetach (tabId t)) of
                  Inl e \<Rightarrow> (Inr (), t\<lparr>attached := False\<rparr>, log1 @ [DebuggerDetach (tabId t)])
                | Inr _ \<Rightarrow> (Inr (), t\<lparr>attached := False\<rparr>, log1 @ [DebuggerDetach (tabId t)]))))"

definition send :: "host \<Rightarrow> transport \<Rightarrow> host_call list \<Rightarrow> string \<Rightarrow> cdp_params \<Rightarrow> (thrown + json) \<times> host_call list" where
  "send h t hlog method params =
     (if \<not> attached t then (Inl (Error ''Debugger not attached''), hlog)
      else (h hlog (DebuggerSendCommand (tabId t) method params),
            hlog @ [DebuggerSendCommand (tabId t) method params]))"

definition isAttached :: "transport \<Rightarrow> bool" where
  "isAttached t = attached t"

text \<open>The host's \<open>onDetach\<close> event, delivered with the tab it concerns and a reason.\<close>

definition handleDetach :: "transport \<Rightarrow> int \<Rightarrow> string \<Rightarrow> transport" where
  "handleDetach t source_tabId reason =
     (if source_tabId \<noteq> tabId t then t else t\<lparr>attached := False\<rparr>)"

section \<open>Page operations (\<open>Page\<close>)\<close>

text \<open>
  The reply of \<open>Runtime.evaluate\<close> is an object with \<open>result.value\<close> and, when the
  script failed, \<open>exceptionDetails\<close> with its \<open>text\<close> (a string in the protocol).
  \<open>evaluate\<close> reads \<open>result.exceptionDetails\<close> and \<open>result.result.value\<close> from
  whatever the host answered; reading a property of \<open>undefined\<close> or \<open>null\<close> raises a
  \<open>TypeError\<close>, which ends the function like any other error.
\<close>

fun text_of :: "json \<Rightarrow> string" where
  "text_of (JStr s) = s"
| "text_of _ = []"

definition nullish :: "json \<Rightarrow> bool" where
  "nullish v \<longleftrightarrow> v = JUndefined \<or> v = JNull"

definition cannot_read :: "json \<Rightarrow> string \<Rightarrow> thrown" where
  "cannot_read v k =
     Error (''Cannot read properties of '' @ (if v = JNull then ''null'' else ''undefined'') @
            '' (reading '' @ [CHR 0x27] @ k @ [CHR 0x27] @ '')'')"

definition evaluate :: "host \<Rightarrow> transport \<Rightarrow> host_call list \<Rightarrow> script \<Rightarrow> (thrown + json) \<times> host_call list" where
  "evaluate h t hlog sc =
     (case send h t hlog ''Runtime.evaluate'' (Evaluate sc) of
        (Inl e, l) \<Rightarrow> (Inl e, l)
      | (Inr result, l) \<Rightarrow>
          if nullish result then (Inl (cannot_read result ''exceptionDetails''), l)
          else if truthy (field result ''exceptionDetails'')
          then (Inl (Error (text_of (field (field result ''exceptionDetails'') ''text''))), l)
          else if nullish (field result ''result'')
          then (Inl (cannot_read (field result ''result'') ''value''), l)
          else (Inr (field (field result ''result'') ''value''), l))"

text \<open>
  The three pointer events of \<open>clickAt\<close>, all sent with the method
  \<open>Input.dispatchMouseEvent\<close>. \<open>button\<close> and \<open>clickCount\<close> are the option fields as given
  (\<open>JUndefined\<close> when absent), defaulted with \<open>||\<close>. Each \<open>await\<close> that rejects ends
  the function.
\<close>

definition mouseMoved :: "json \<Rightarrow> json \<Rightarrow> cdp_params" where
  "mouseMoved x y = Params [(''type'', JStr ''mouseMoved''), (''x'', x), (''y'', y)]"

definition mousePressed :: "json \<Rightarrow> json \<Rightarrow> json \<Rightarrow> json \<Rightarrow> cdp_params" where
  "mousePressed x y button clickCount =
     Params [(''type'', JStr ''mousePressed''), (''x'', x), (''y'', y),
             (''button'', button), (''clickCount'', clickCount)]"

definition mouseReleased :: "json \<Rightarrow> json \<Rightarrow> json \<Rightarrow> json \<Rightarrow> cdp_params" where
  "mouseReleased x y button clickCount =
     Params [(''type'', JStr ''mouseReleased''), (''x'', x), (''y'', y),
             (''button'', button), (''clickCount'', clickCount)]"

definition dispatchMouseEvent :: string where
  "dispatchMouseEvent = ''Input.dispatchMouseEvent''"

definition clickAt :: "host \<Rightarrow> transport \<Rightarrow> host_call list \<Rightarrow> json \<Rightarrow> json \<Rightarrow> json \<Rightarrow> json \<Rightarrow> (thrown + unit) \<times> host_call list" where
  "clickAt h t hlog x y button_opt clickCount_opt =
     (let button = (if truthy button_opt then button_opt else JStr ''left'');
          clickCount = (if truthy clickCount_opt then clickCount_opt else JNum 1)
      in (case send h t hlog dispatchMouseEvent (mouseMoved x y) of
            (Inl e, l1) \<Rightarrow> (Inl e, l1)
          | (Inr _, l1) \<Rightarrow>
              (case send h t l1 dispatchMouseEvent (mousePressed x y button clickCount) of
                 (Inl e, l2) \<Rightarrow> (Inl e, l2)
               | (Inr _, l2) \<Rightarrow>
                   (case send h t l2 dispatchMouseEvent
                           (mouseReleased x y button clickCount) of
                      (Inl e, l3) \<Rightarrow> (Inl e, l3)
                    | (Inr _, l3) \<Rightarrow> (Inr (), l3)))))"

definition click_events :: "int \<Rightarrow> json \<Rightarrow> json \<Rightarrow> json \<Rightarrow> json \<Rightarrow> host_call list" where
  "click_events tab x y button clickCount =
     [DebuggerSendCommand tab dispatchMouseEvent (mouseMoved x y),
      DebuggerSendCommand tab dispatchMouseEvent (mousePressed x y button clickCount),
      DebuggerSendCommand tab dispatchMouseEvent (mouseReleased x y button clickCount)]"

definition clickElement :: "host \<Rightarrow> transport \<Rightarrow> host_call list \<Rightarrow> string \<Rightarrow> (thrown + json) \<times> host_call list" where
  "clickElement h t hlog selector =
     (case evaluate h t hlog (ClickElementScript selector selector) of
        (Inl e, l) \<Rightarrow> (Inl e, l)
      | (Inr elementInfo, l) \<Rightarrow>
          (case clickAt h t l (field elementInfo ''x'') (field elementInfo ''y'')
                  JUndefined JUndefined of
             (Inl e, l2) \<Rightarrow> (Inl e, l2)
           | (Inr _, l2) \<Rightarrow>
               (Inr (JObj [(''tagName'', field elementInfo ''tagName''),
                           (''text'', field elementInfo ''text'')]), l2)))"

definition selectOption :: "host \<Rightarrow> transport \<Rightarrow> host_call list \<Rightarrow> string \<Rightarrow> select_options \<Rightarrow> (thrown + json) \<times> host_call list" where
  "selectOption h t hlog selector options =
     evaluate h t hlog (SelectOptionScript selector selector options)"

section \<open>What the scripts do in the page\<close>

text \<open>
  The part of a document the scripts read and write: what \<open>document.querySelector\<close>
  answers (it throws on a selector that is not valid CSS), the elements by node, and the
  events dispatched so far.
\<close>

record dom_option =
  opt_value :: string
  opt_text :: string

record element =
  el_tagName :: string
  el_textContent :: string
  el_left :: rat
  el_top :: rat
  el_width :: rat
  el_height :: rat
  el_options :: "dom_option list"
  el_selectedIndex :: nat

datatype query_result = QueryThrows string | NoMatch | Match nat

record document =
  querySelector :: "string \<Rightarrow> query_result"
  nodes :: "nat \<Rightarrow> element"
  dispatched :: "(nat \<times> string) list"

text \<open>
  How a script run ends: a value, a thrown \<open>Error\<close> with its message, or no run at all
  because the text is not a program. \<open>Unmodelled\<close> stands for the script texts about
  which this development says nothing (see \<open>splice_sq\<close>).
\<close>

datatype js_outcome = Returned json | Threw string | SyntaxErr | Unmodelled

text \<open>
  Text placed as it is between two single quotes of a script. If it has no single quote,
  backslash or line break it is the content of one string literal. A line break before
  any quote or backslash leaves the literal unterminated. A single quote closes the literal
  early; when the next character starts an identifier other than the operators \<open>in\<close>
  and \<open>instanceof\<close>, a string literal is followed directly by a name, which no
  JavaScript program allows. Every other text (a backslash escape, or a quote followed
  by something else) is left undetermined.
\<close>

datatype splice = Spliced string | SpliceSyntaxError | SpliceUnmodelled

definition ident_start :: "char \<Rightarrow> bool" where
  "ident_start c \<longleftrightarrow> c \<in> set ''abcdefghijklmnopqrstuvwxyzABCDEFGHIJKLMNOPQRSTUVWXYZ_$''"

definition ident_part :: "char \<Rightarrow> bool" where
  "ident_part c \<longleftrightarrow> ident_start c \<or> c \<in> set ''0123456789''"

definition after_quote :: "string \<Rightarrow> splice" where
  "after_quote cs =
     (case cs of
        [] \<Rightarrow> SpliceUnmodelled
      | c # _ \<Rightarrow>
          if ident_start c \<and> takeWhile ident_part cs \<noteq> ''in''
             \<and> takeWhile ident_part cs \<noteq> ''instanceof''
          then SpliceSyntaxError else SpliceUnmodelled)"

fun splice_sq :: "string \<Rightarrow> splice" where
  "splice_sq [] = Spliced []"
| "splice_sq (c # cs) =
     (if c = CHR 0x27 then after_quote cs
      else if c = CHR 0x5C then SpliceUnmodelled
      else if c = CHR 0x0A \<or> c = CHR 0x0D then SpliceSyntaxError
      else (case splice_sq cs of Spliced s \<Rightarrow> Spliced (c # s) | r \<Rightarrow> r))"

text \<open>
  The script of \<open>clickElement\<close>: \<open>q\<close> is the selector as \<open>querySelector\<close> receives
  it, \<open>raw\<close> the text spliced into \<open>'Element not found: ${selector}'\<close>.
\<close>

definition clickElement_script :: "document \<Rightarrow> string \<Rightarrow> string \<Rightarrow> js_outcome" where
  "clickElement_script doc q raw =
     (case splice_sq raw of
        SpliceSyntaxError \<Rightarrow> SyntaxErr
      | SpliceUnmodelled \<Rightarrow> Unmodelled
      | Spliced m \<Rightarrow>
          (case querySelector doc q of
             QueryThrows e \<Rightarrow> Threw e
           | NoMatch \<Rightarrow> Threw (''Element not found: '' @ m)
           | Match n \<Rightarrow>
               (let el = nodes doc n
                in Returned (JObj [(''x'', JNum (el_left el + el_width el / 2)),
                                   (''y'', JNum (el_top el + el_height el / 2)),
                                   (''tagName'', JStr (el_tagName el)),
                                   (''text'', JStr (take 100 (el_textContent el)))]))))"

text \<open>
  Option lookup in the script of \<open>selectOption\<close>, block by block: a block is present
  only if its criterion was supplied; the first assigns, the other two assign only while
  \<open>optionToSelect\<close> is still empty.
\<close>

definition find_option :: "select_options \<Rightarrow> dom_option list \<Rightarrow> dom_option option" where
  "find_option opts os =
     (let o0 = None;
          o1 = (case so_value opts of
                  None \<Rightarrow> o0
                | Some v \<Rightarrow> List.find (\<lambda>opt. opt_value opt = v) os);
          o2 = (case so_text opts of
                  None \<Rightarrow> o1
                | Some tx \<Rightarrow> if o1 = None then List.find (\<lambda>opt. opt_text opt = tx) os else o1);
          o3 = (case so_index opts of
                  None \<Rightarrow> o2
                | Some i \<Rightarrow>
                    if o2 = None
                    then (if 0 \<le> i \<and> nat i < length os then Some (os ! nat i) else None)
                    else o2)
      in o3)"

text \<open>
  The same lookup in the words of the specification: value, then text, then index, the
  first supplied criterion that yields a match wins.
\<close>

definition by_value :: "select_options \<Rightarrow> dom_option list \<Rightarrow> dom_option option" where
  "by_value opts os =
     (case so_value opts of None \<Rightarrow> None | Some v \<Rightarrow> List.find (\<lambda>opt. opt_value opt = v) os)"

definition by_text :: "select_options \<Rightarrow> dom_option list \<Rightarrow> dom_option option" where
  "by_text opts os =
     (case so_text opts of None \<Rightarrow> None | Some tx \<Rightarrow> List.find (\<lambda>opt. opt_text opt = tx) os)"

definition by_index :: "select_options \<Rightarrow> dom_option list \<Rightarrow> dom_option option" where
  "by_index opts os =
     (case so_index opts of
        None \<Rightarrow> None
      | Some i \<Rightarrow> if 0 \<le> i \<and> nat i < length os then Some (os ! nat i) else None)"

definition spec_priority :: "select_options \<Rightarrow> dom_option list \<Rightarrow> dom_option option" where
  "spec_priority opts os =
     (case by_value opts os of
        Some opt \<Rightarrow> Some opt
      | None \<Rightarrow> (case by_text opts os of Some opt \<Rightarrow> Some opt | None \<Rightarrow> by_index opts os))"

text \<open>
  The script of \<open>selectOption\<close>. Assigning \<open>select.value\<close> selects the first option
  with that value; then \<open>change\<close> and \<open>input\<close> are dispatched on the select element.
\<close>

definition selectOption_script :: "document \<Rightarrow> string \<Rightarrow> string \<Rightarrow> select_options \<Rightarrow> js_outcome \<times> document" where
  "selectOption_script doc q raw opts =
     (case splice_sq raw of
        SpliceSyntaxError \<Rightarrow> (SyntaxErr, doc)
      | SpliceUnmodelled \<Rightarrow> (Unmodelled, doc)
      | Spliced m \<Rightarrow>
          (case querySelector doc q of
             QueryThrows e \<Rightarrow> (Threw e, doc)
           | NoMatch \<Rightarrow> (Threw (''Element is not a SELECT: '' @ m), doc)
           | Match n \<Rightarrow>
               if el_tagName (nodes doc n) \<noteq> ''SELECT''
               then (Threw (''Element is not a SELECT: '' @ m), doc)
               else
                 (case find_option opts (el_options (nodes doc n)) of
                    None \<Rightarrow> (Threw ''Option not found'', doc)
                  | Some optionToSelect \<Rightarrow>
                      (Returned (JObj [(''value'', JStr (opt_value optionToSelect)),
                                       (''text'', JStr (opt_text optionToSelect))]),
                       doc\<lparr>nodes := (nodes doc)
                             (n := (nodes doc n)
                                \<lparr>el_selectedIndex :=
                                   length (takeWhile
                                     (\<lambda>opt. opt_value opt \<noteq> opt_value optionToSelect)
                                     (el_options (nodes doc n)))\<rparr>),
                           dispatched := dispatched doc @ [(n, ''change''), (n, ''input'')]\<rparr>))))"

text \<open>
  The contract between a script run and the reply of \<open>Runtime.evaluate\<close>: a returned
  value comes back as the \<open>value\<close> of a \<open>result\<close> object, without
  \<open>exceptionDetails\<close>; a thrown error and a syntax error come back with
  \<open>exceptionDetails\<close>.
\<close>

definition reports :: "json \<Rightarrow> js_outcome \<Rightarrow> bool" where
  "reports reply out =
     (case out of
        Returned v \<Rightarrow>
          \<not> truthy (field reply ''exceptionDetails'') \<and>
          \<not> nullish (field reply ''result'') \<and>
          field (field reply ''result'') ''value'' = v
      | Threw m \<Rightarrow> truthy (field reply ''exceptionDetails'')
      | SyntaxErr \<Rightarrow> truthy (field reply ''exceptionDetails'')
      | Unmodelled \<Rightarrow> True)"

text \<open>
  A host whose tab shows the document \<open>doc\<close>, for examples: it runs the two modelled
  scripts on it and reports the outcome the way the protocol does (an empty reply where
  the outcome is undetermined), and it accepts every other command.
\<close>

definition evaluate_reply :: "js_outcome \<Rightarrow> json" where
  "evaluate_reply out =
     (case out of
        Returned v \<Rightarrow> JObj [(''result'', JObj [(''value'', v)])]
      | Threw m \<Rightarrow>
          JObj [(''result'', JObj [(''description'', JStr (''Error: '' @ m))]),
                (''exceptionDetails'', JObj [(''text'', JStr ''Uncaught'')])]
      | SyntaxErr \<Rightarrow>
          JObj [(''result'', JObj [(''className'', JStr ''SyntaxError'')]),
                (''exceptionDetails'', JObj [(''text'', JStr ''Uncaught'')])]
      | Unmodelled \<Rightarrow> JObj [])"

definition page_host :: "document \<Rightarrow> host" where
  "page_host doc hlog c =
     (case c of
        DebuggerSendCommand tab method (Evaluate (ClickElementScript q raw)) \<Rightarrow>
          Inr (evaluate_reply (clickElement_script doc q raw))
      | DebuggerSendCommand tab method (Evaluate (SelectOptionScript q raw opts)) \<Rightarrow>
          Inr (evaluate_reply (fst (selectOption_script doc q raw opts)))
      | _ \<Rightarrow> Inr (JObj []))"

text \<open>Two pages used as examples: one element answering one selector.\<close>

definition one_element_page :: "string \<Rightarrow> element \<Rightarrow> document" where
  "one_element_page sel el =
     \<lparr>querySelector = (\<lambda>q. if q = sel then Match 0 else NoMatch), nodes = (\<lambda>_. el),
      dispatched = []\<rparr>"

definition search_box :: element where
  "search_box =
     \<lparr>el_tagName = ''INPUT'', el_textContent = [], el_left = 100, el_top = 200,
      el_width = 40, el_height = 20, el_options = [], el_selectedIndex = 0\<rparr>"

definition letter_select :: element where
  "letter_select =
     \<lparr>el_tagName = ''SELECT'', el_textContent = ''AB'', el_left = 0, el_top = 0,
      el_width = 80, el_height = 20,
      el_options = [\<lparr>opt_value = ''b'', opt_text = ''B''\<rparr>, \<lparr>opt_value = ''a'', opt_text = ''A''\<rparr>],
      el_selectedIndex = 0\<rparr>"

text \<open>A select element whose two options carry the same value.\<close>

definition twin_select :: element where
  "twin_select =
     \<lparr>el_tagName = ''SELECT'', el_textContent = ''FirstSecond'', el_left = 0, el_top = 0,
      el_width = 80, el_height = 20,
      el_options = [\<lparr>opt_value = ''1'', opt_text = ''First''\<rparr>,
                    \<lparr>opt_value = ''1'', opt_text = ''Second''\<rparr>],
      el_selectedIndex = 0\<rparr>"

section \<open>RPC bridge (\<open>sendToExtension\<close> and the WebSocket handlers)\<close>

text \<open>
  Decimal rendering of the request counter, as the template literal
  \<open>`req_${++requestIdCounter}`\<close> produces it. The counter is a JavaScript number; it
  counts exactly up to \<open>2^53\<close>, far beyond any run, and is modelled as a natural number.
\<close>

definition digit :: "nat \<Rightarrow> char" where
  "digit d = ''0123456789'' ! d"

function dec :: "nat \<Rightarrow> string" where
  "dec n = (if n < 10 then [digit n] else dec (n div 10) @ [digit (n mod 10)])"
  by pat_completeness auto
termination
  by (relation "measure id") auto

declare dec.simps [simp del]

definition mk_id :: "nat \<Rightarrow> string" where
  "mk_id n = ''req_'' @ dec n"

datatype ready_state = CONNECTING | OPEN | CLOSING | CLOSED

text \<open>The Request envelope written to the socket.\<close>

record request =
  req_id :: string
  req_action :: string
  req_params :: json

text \<open>
  What \<open>JSON.parse(data.toString())\<close> yields. A Response carries its \<open>id\<close> and, when
  present, its \<open>payload\<close> with \<open>success\<close>, \<open>data\<close> and the optional \<open>error\<close>
  string; any other parsed value is \<open>OtherMessage\<close>; \<open>Unparseable\<close> is the case in
  which \<open>JSON.parse\<close> throws.
\<close>

record payload =
  success :: bool
  data :: json
  error :: "string option"

datatype message =
    Response string "payload option"
  | OtherMessage
  | Unparseable

datatype settlement = Resolved json | Rejected thrown

datatype removal = ByResponse | ByTimeout

text \<open>
  The closure handed to \<open>setTimeout\<close>: it captures \<open>id\<close> and \<open>action\<close>, and is
  armed with the delay 30000. \<open>timers\<close> holds the armed timers by handle; a fired or
  cleared timer is no longer there.
\<close>

record timer =
  timer_id :: string
  timer_action :: string
  timer_delay :: nat

text \<open>
  The module state: the three globals \<open>extensionClient\<close>, \<open>requestIdCounter\<close> and
  \<open>pendingRequests\<close> (a \<open>Map\<close> from id to the entry, of which the timer handle is
  kept; \<open>resolve\<close> and \<open>reject\<close> belong to the promise of the call that issued the id),
  the runtime's armed timers and socket states, and three traces of what was done: the
  frames written, the promises settled (by id of the call), and the entries deleted.
\<close>

record bridge =
  extensionClient :: "nat option"
  readyState :: "nat \<Rightarrow> ready_state"
  requestIdCounter :: nat
  pendingRequests :: "(string \<times> nat) list"
  timers :: "(nat \<times> timer) list"
  nextTimer :: nat
  sent :: "(nat \<times> request) list"
  settled :: "(string \<times> settlement) list"
  removed :: "(string \<times> removal) list"

definition init_bridge :: bridge where
  "init_bridge =
     \<lparr>extensionClient = None, readyState = (\<lambda>_. CONNECTING), requestIdCounter = 0,
      pendingRequests = [], timers = [], nextTimer = 0, sent = [], settled = [],
      removed = []\<rparr>"

definition peer_connected :: "bridge \<Rightarrow> bool" where
  "peer_connected s =
     (case extensionClient s of None \<Rightarrow> False | Some ws \<Rightarrow> readyState s ws = OPEN)"

definition not_connected_error :: thrown where
  "not_connected_error =
     Error ''Browser extension not connected. Please open the extension side panel.''"

text \<open>
  \<open>sendToExtension\<close>. \<open>Inl e\<close>: the returned promise is already rejected with \<open>e\<close>.
  \<open>Inr id\<close>: the promise is pending and will be settled under \<open>id\<close>. Writing a
  frame to a socket that was just seen open queues it and does not throw. Time is not
  measured: a timer firing stands for its delay having passed.
\<close>

definition sendToExtension :: "bridge \<Rightarrow> string \<Rightarrow> json \<Rightarrow> (thrown + string) \<times> bridge" where
  "sendToExtension s action params =
     (case extensionClient s of
        None \<Rightarrow> (Inl not_connected_error, s)
      | Some ws \<Rightarrow>
          if readyState s ws \<noteq> OPEN then (Inl not_connected_error, s)
          else
            (let n = requestIdCounter s + 1;
                 i = mk_id n;
                 h = nextTimer s
             in (Inr i,
                 s\<lparr>requestIdCounter := n,
                   timers := AList.update h
                     \<lparr>timer_id = i, timer_action = action, timer_delay = 30000\<rparr> (timers s),
                   nextTimer := h + 1,
                   pendingRequests := AList.update i h (pendingRequests s),
                   sent := sent s @ [(ws, \<lparr>req_id = i, req_action = action,
                                           req_params = params\<rparr>)]\<rparr>)))"

text \<open>The timeout callback, run by the runtime for an armed timer only.\<close>

definition onTimeout :: "bridge \<Rightarrow> nat \<Rightarrow> bridge" where
  "onTimeout s h =
     (case map_of (timers s) h of
        None \<Rightarrow> s
      | Some t \<Rightarrow>
          s\<lparr>timers := AList.delete h (timers s),
            pendingRequests := AList.delete (timer_id t) (pendingRequests s),
            removed := (if map_of (pendingRequests s) (timer_id t) = None then removed s
                        else removed s @ [(timer_id t, ByTimeout)]),
            settled := settled s @
              [(timer_id t, Rejected (Error (''Request timeout: '' @ timer_action t)))]\<rparr>)"

definition error_or_unknown :: "string option \<Rightarrow> string" where
  "error_or_unknown e =
     (case e of None \<Rightarrow> ''Unknown error''
      | Some m \<Rightarrow> if m = [] then ''Unknown error'' else m)"

text \<open>
  The \<open>message\<close> handler. A Response without payload makes \<open>message.payload.success\<close>
  throw after the entry is deleted; the surrounding \<open>catch\<close> only logs, so nothing is settled.
\<close>

definition onMessage :: "bridge \<Rightarrow> message \<Rightarrow> bridge" where
  "onMessage s m =
     (case m of
        Unparseable \<Rightarrow> s
      | OtherMessage \<Rightarrow> s
      | Response i p \<Rightarrow>
          (case map_of (pendingRequests s) i of
             None \<Rightarrow> s
           | Some h \<Rightarrow>
               (let s1 = s\<lparr>timers := AList.delete h (timers s),
                            pendingRequests := AList.delete i (pendingRequests s),
                            removed := removed s @ [(i, ByResponse)]\<rparr>
                in (case p of
                      None \<Rightarrow> s1
                    | Some pl \<Rightarrow>
                        if success pl
                        then s1\<lparr>settled := settled s1 @ [(i, Resolved (data pl))]\<rparr>
                        else s1\<lparr>settled := settled s1 @
                                [(i, Rejected (Error (error_or_unknown (error pl))))]\<rparr>))))"

definition onConnection :: "bridge \<Rightarrow> nat \<Rightarrow> bridge" where
  "onConnection s ws = s\<lparr>extensionClient := Some ws, readyState := (readyState s)(ws := OPEN)\<rparr>"

definition onClose :: "bridge \<Rightarrow> nat \<Rightarrow> bridge" where
  "onClose s ws =
     (let s1 = s\<lparr>readyState := (readyState s)(ws := CLOSED)\<rparr>
      in if extensionClient s1 = Some ws then s1\<lparr>extensionClient := None\<rparr> else s1)"

text \<open>
  Everything that can happen to the bridge, one event at a time (the process is a single
  cooperative thread): a tool call, a socket connecting, starting to close or closed, a
  frame arriving on any socket, an armed timer firing.
\<close>

datatype event =
    Call string json
  | Connection nat
  | Closing nat
  | Close nat
  | Message message
  | TimerFires nat

fun step :: "bridge \<Rightarrow> event \<Rightarrow> bridge" where
  "step s (Call action params) = snd (sendToExtension s action params)"
| "step s (Connection ws) = onConnection s ws"
| "step s (Closing ws) = s\<lparr>readyState := (readyState s)(ws := CLOSING)\<rparr>"
| "step s (Close ws) = onClose s ws"
| "step s (Message m) = onMessage s m"
| "step s (TimerFires h) = onTimeout s h"

definition run :: "bridge \<Rightarrow> event list \<Rightarrow> bridge" where
  "run s es = foldl step s es"

text \<open>
  The invariant of the bridge: pending entries and armed timers correspond one to one,
  every timer closure belongs to a Request that was written with the same id and action,
  the ids written are \<open>req_1\<close>, \<open>req_2\<close>, ... up to the counter, and no id is removed or
  settled twice.
\<close>

definition sent_ids :: "bridge \<Rightarrow> (string \<times> string) list" where
  "sent_ids s = map (\<lambda>(ws, r). (req_id r, req_action r)) (sent s)"

definition bridge_inv :: "bridge \<Rightarrow> bool" where
  "bridge_inv s \<longleftrightarrow>
     (\<forall>i h. map_of (pendingRequests s) i = Some h \<longrightarrow>
        (\<exists>t. map_of (timers s) h = Some t \<and> timer_id t = i))
   \<and> (\<forall>h t. map_of (timers s) h = Some t \<longrightarrow>
        map_of (pendingRequests s) (timer_id t) = Some h \<and> h < nextTimer s \<and>
        timer_delay t = 30000 \<and> (timer_id t, timer_action t) \<in> set (sent_ids s))
   \<and> map fst (sent_ids s) = map mk_id [1..<Suc (requestIdCounter s)]
   \<and> set (map fst (removed s)) \<subseteq> mk_id ` {1..requestIdCounter s}
   \<and> distinct (map fst (removed s))
   \<and> (\<forall>i \<in> set (map fst (removed s)). map_of (pendingRequests s) i = None)
   \<and> distinct (map fst (settled s))
   \<and> set (map fst (settled s)) \<subseteq> set (map fst (removed s))
   \<and> distinct (map fst (pendingRequests s))"

text \<open>
  How a call ends according to the specification, given the events that follow it: the
  first matching Response with a payload resolves the caller with \<open>payload.data\<close> if
  \<open>payload.success\<close> is true and otherwise rejects it with \<open>payload.error\<close>, or
  with \<open>Unknown error\<close> if that is empty or absent; the call's timer firing before any
  such Response rejects it with \<open>Request timeout: \<close> followed by the action; no other
  event settles the call. \<open>None\<close>: none of the three has happened yet.
\<close>

fun three_ways :: "string \<Rightarrow> string \<Rightarrow> nat \<Rightarrow> event list \<Rightarrow> settlement option" where
  "three_ways i action h [] = None"
| "three_ways i action h (Message (Response j (Some pl)) # es) =
     (if j = i
      then Some (if success pl then Resolved (data pl)
                 else Rejected (Error (case error pl of
                                         None \<Rightarrow> ''Unknown error''
                                       | Some m \<Rightarrow> if m = [] then ''Unknown error'' else m)))
      else three_ways i action h es)"
| "three_ways i action h (TimerFires k # es) =
     (if k = h then Some (Rejected (Error (''Request timeout: '' @ action)))
      else three_ways i action h es)"
| "three_ways i action h (_ # es) = three_ways i action h es"

section \<open>Console capture (the script of \<open>Page.getConsoleLogs\<close>)\<close>

text \<open>
  The state the script keeps on the page's \<open>window\<close>: \<open>__agentsCCConsoleLogs\<close>, absent
  until the first read installs the collector, and \<open>__agentsCCMaxLogs\<close>.
\<close>

record log_entry =
  log_type :: string
  log_text :: string
  log_timestamp :: nat
  log_url :: "string option"
  log_lineNumber :: "int option"

record console_window =
  agentsCCConsoleLogs :: "log_entry list option"
  agentsCCMaxLogs :: nat

definition fresh_window :: console_window where
  "fresh_window = \<lparr>agentsCCConsoleLogs = None, agentsCCMaxLogs = 0\<rparr>"

text \<open>
  The replacement installed for \<open>console.log\<close>, \<open>info\<close>, \<open>warn\<close>, \<open>error\<close> and
  \<open>debug\<close>: push, then drop the oldest entry if the length exceeds the maximum. Before
  the collector is installed the page still has the original functions, which record nothing.
  \<open>txt\<close> is the joined rendering of the arguments and \<open>now\<close> is \<open>Date.now()\<close>.
\<close>

definition console_call :: "console_window \<Rightarrow> string \<Rightarrow> string \<Rightarrow> nat \<Rightarrow> console_window" where
  "console_call w ty txt now =
     (case agentsCCConsoleLogs w of
        None \<Rightarrow> w
      | Some logs \<Rightarrow>
          (let pushed = logs @ [\<lparr>log_type = ty, log_text = txt, log_timestamp = now,
                                  log_url = None, log_lineNumber = None\<rparr>]
           in if length pushed > agentsCCMaxLogs w
              then w\<lparr>agentsCCConsoleLogs := Some (tl pushed)\<rparr>
              else w\<lparr>agentsCCConsoleLogs := Some pushed\<rparr>))"

text \<open>The two listeners the collector adds to \<open>window\<close>; they only push.\<close>

definition window_error :: "console_window \<Rightarrow> string \<Rightarrow> string \<Rightarrow> int \<Rightarrow> nat \<Rightarrow> console_window" where
  "window_error w msg filename lineno now =
     (case agentsCCConsoleLogs w of
        None \<Rightarrow> w
      | Some logs \<Rightarrow>
          w\<lparr>agentsCCConsoleLogs :=
              Some (logs @ [\<lparr>log_type = ''error'', log_text = msg, log_timestamp = now,
                              log_url = Some filename, log_lineNumber = Some lineno\<rparr>])\<rparr>)"

definition window_unhandledrejection :: "console_window \<Rightarrow> string \<Rightarrow> nat \<Rightarrow> console_window" where
  "window_unhandledrejection w reason now =
     (case agentsCCConsoleLogs w of
        None \<Rightarrow> w
      | Some logs \<Rightarrow>
          w\<lparr>agentsCCConsoleLogs :=
              Some (logs @ [\<lparr>log_type = ''error'',
                              log_text = ''Unhandled Promise Rejection: '' @ reason,
                              log_timestamp = now, log_url = None, log_lineNumber = None\<rparr>])\<rparr>)"

text \<open>
  The script itself: install the collector if \<open>window.__agentsCCConsoleLogs\<close> is not
  there yet (an empty array is truthy, so this happens once), then return a copy of the
  logs and replace them by an empty array.
\<close>

definition getConsoleLogs_script :: "console_window \<Rightarrow> log_entry list \<times> console_window" where
  "getConsoleLogs_script w =
     (let w1 = (case agentsCCConsoleLogs w of
                  None \<Rightarrow> w\<lparr>agentsCCConsoleLogs := Some [], agentsCCMaxLogs := 1000\<rparr>
                | Some _ \<Rightarrow> w)
      in (case agentsCCConsoleLogs w1 of
            None \<Rightarrow> ([], w1)
          | Some logs \<Rightarrow> (logs, w1\<lparr>agentsCCConsoleLogs := Some []\<rparr>)))"

text \<open>What the page does between two reads.\<close>

datatype page_event =
    ConsoleCall string string nat
  | WindowError string string int nat
  | UnhandledRejection string nat

fun page_step :: "console_window \<Rightarrow> page_event \<Rightarrow> console_window" where
  "page_step w (ConsoleCall ty txt now) = console_call w ty txt now"
| "page_step w (WindowError msg filename lineno now) = window_error w msg filename lineno now"
| "page_step w (UnhandledRejection reason now) = window_unhandledrejection w reason now"

definition buffer_length :: "console_window \<Rightarrow> nat" where
  "buffer_length w = (case agentsCCConsoleLogs w of None \<Rightarrow> 0 | Some logs \<Rightarrow> length logs)"

section \<open>Action executor (\<open>executeAction\<close>, \<open>handleMCPRequest\<close>)\<close>

text \<open>
  \<open>executeAction\<close> works on the active page through the methods of \<open>Page\<close> and of the
  tab registry. Each method is taken here by its outcome for the given arguments, so that
  the executor is checked against every behaviour of the layers below it. The five actions
  of the text-generation add-on are one entry, \<open>op_ai\<close>.
\<close>

datatype eval_source = UserScript json | ExtractScript json

record page_ops =
  op_getActivePage :: "thrown + unit"
  op_navigateTo :: "json \<Rightarrow> thrown + json"
  op_waitForNavigation :: "thrown + unit"
  op_getPageInfo :: "thrown + json"
  op_clickElement :: "json \<Rightarrow> thrown + json"
  op_clickAt :: "json \<Rightarrow> json \<Rightarrow> json \<Rightarrow> json \<Rightarrow> thrown + unit"
  op_typeInElement :: "json \<Rightarrow> json \<Rightarrow> json \<Rightarrow> json \<Rightarrow> thrown + unit"
  op_type :: "json \<Rightarrow> json \<Rightarrow> thrown + unit"
  op_scrollToElement :: "json \<Rightarrow> thrown + unit"
  op_scrollTo :: "json \<Rightarrow> json \<Rightarrow> thrown + unit"
  op_scroll :: "json \<Rightarrow> json \<Rightarrow> thrown + json"
  op_captureScreenshot :: "json \<Rightarrow> json \<Rightarrow> json \<Rightarrow> thrown + json"
  op_getViewportSize :: "thrown + json"
  op_evaluate :: "eval_source \<Rightarrow> thrown + json"
  op_getAllTabsInfo :: "thrown + json"
  op_switchToTab :: "json \<Rightarrow> thrown + unit"
  op_pressKey :: "json \<Rightarrow> thrown + unit"
  op_selectOption :: "json \<Rightarrow> json \<Rightarrow> json \<Rightarrow> json \<Rightarrow> thrown + json"
  op_goBack :: "thrown + unit"
  op_goForward :: "thrown + unit"
  op_reload :: "thrown + unit"
  op_ai :: "string \<Rightarrow> json \<Rightarrow> thrown + json"

text \<open>
  The operations awaited so far, each with the error it raised, if any. \<open>call\<close> is
  \<open>await op\<close>: an error ends the function with that error. \<open>call_caught\<close> is
  \<open>await op.catch(() => {})\<close>: the function goes on whatever the outcome.
\<close>

type_synonym op_trace = "(string \<times> thrown option) list"

definition call :: "string \<Rightarrow> thrown + 'a \<Rightarrow> op_trace \<Rightarrow> ('a \<Rightarrow> op_trace \<Rightarrow> (thrown + json) \<times> op_trace) \<Rightarrow> (thrown + json) \<times> op_trace" where
  "call name r tr k =
     (case r of Inl e \<Rightarrow> (Inl e, tr @ [(name, Some e)]) | Inr v \<Rightarrow> k v (tr @ [(name, None)]))"

definition call_caught :: "string \<Rightarrow> thrown + 'a \<Rightarrow> op_trace \<Rightarrow> (op_trace \<Rightarrow> (thrown + json) \<times> op_trace) \<Rightarrow> (thrown + json) \<times> op_trace" where
  "call_caught name r tr k =
     (case r of Inl e \<Rightarrow> k (tr @ [(name, Some e)]) | Inr v \<Rightarrow> k (tr @ [(name, None)]))"

text \<open>\<open>v.length\<close> of a string or array; absent on other values.\<close>

fun js_length :: "json \<Rightarrow> json" where
  "js_length (JStr s) = JNum (of_nat (length s))"
| "js_length (JArr xs) = JNum (of_nat (length xs))"
| "js_length _ = JUndefined"

text \<open>Object spread \<open>{...base, ...v}\<close>: the keys of \<open>v\<close> are set on \<open>base\<close> in order.\<close>

fun spread :: "(string \<times> json) list \<Rightarrow> json \<Rightarrow> json" where
  "spread base (JObj kvs) = JObj (foldl (\<lambda>acc kv. AList.update (fst kv) (snd kv) acc) base kvs)"
| "spread base _ = JObj base"

definition or_default :: "json \<Rightarrow> json \<Rightarrow> json" where
  "or_default v d = (if truthy v then v else d)"

definition ai_actions :: "string list" where
  "ai_actions = [''ai_config'', ''ai_get_config'', ''ai_clear_config'', ''ai_chat'', ''ai_generate'']"

definition executeAction :: "page_ops \<Rightarrow> string \<Rightarrow> json \<Rightarrow> (thrown + json) \<times> op_trace" where
  "executeAction ops action params =
     call ''getActivePage'' (op_getActivePage ops) [] (\<lambda>_ tr.
       if action = ''navigate'' then
         (if \<not> truthy (field params ''url'') then (Inl (Error ''URL is required''), tr)
          else
            call ''navigateTo'' (op_navigateTo ops (field params ''url'')) tr (\<lambda>_ tr.
            call_caught ''waitForNavigation'' (op_waitForNavigation ops) tr (\<lambda>tr.
            call ''getPageInfo'' (op_getPageInfo ops) tr (\<lambda>info tr.
              (Inr (JObj [(''url'', field info ''url''), (''title'', field info ''title'')]), tr)))))
       else if action = ''click'' then
         (if truthy (field params ''selector'') then
            call ''clickElement'' (op_clickElement ops (field params ''selector'')) tr (\<lambda>result tr.
              (Inr (JObj [(''clicked'', JBool True), (''element'', result)]), tr))
          else if field params ''x'' \<noteq> JUndefined \<and> field params ''y'' \<noteq> JUndefined then
            call ''clickAt''
              (op_clickAt ops (field params ''x'') (field params ''y'') (field params ''button'')
                 (field params ''clickCount'')) tr (\<lambda>_ tr.
              (Inr (JObj [(''clicked'', JBool True)]), tr))
          else (Inl (Error ''selector or coordinates required''), tr))
       else if action = ''type'' then
         (if \<not> truthy (field params ''text'') then (Inl (Error ''text is required''), tr)
          else if truthy (field params ''selector'') then
            call ''typeInElement''
              (op_typeInElement ops (field params ''selector'') (field params ''text'')
                 (field params ''clearFirst'') (field params ''delay'')) tr (\<lambda>_ tr.
              (Inr (JObj [(''typed'', JBool True),
                          (''length'', js_length (field params ''text''))]), tr))
          else
            call ''type'' (op_type ops (field params ''text'') (field params ''delay'')) tr (\<lambda>_ tr.
              (Inr (JObj [(''typed'', JBool True),
                          (''length'', js_length (field params ''text''))]), tr)))
       else if action = ''scroll'' then
         (if truthy (field params ''selector'') then
            call ''scrollToElement'' (op_scrollToElement ops (field params ''selector'')) tr (\<lambda>_ tr.
              (Inr (JObj [(''scrolled'', JBool True)]), tr))
          else if field params ''x'' \<noteq> JUndefined \<and> field params ''y'' \<noteq> JUndefined then
            call ''scrollTo'' (op_scrollTo ops (field params ''x'') (field params ''y'')) tr (\<lambda>_ tr.
              (Inr (JObj [(''scrolled'', JBool True)]), tr))
          else
            call ''scroll''
              (op_scroll ops (or_default (field params ''direction'') (JStr ''down''))
                 (or_default (field params ''distance'') (JNum 500))) tr (\<lambda>pos tr.
              (Inr (JObj [(''scrollX'', field pos ''x''), (''scrollY'', field pos ''y'')]), tr)))
       else if action = ''screenshot'' then
         call ''captureScreenshot''
           (op_captureScreenshot ops (or_default (field params ''format'') (JStr ''png''))
              (field params ''quality'') (field params ''fullPage'')) tr (\<lambda>image tr.
         call ''getViewportSize'' (op_getViewportSize ops) tr (\<lambda>viewport tr.
           (Inr (JObj [(''image'', image), (''width'', field viewport ''width''),
                       (''height'', field viewport ''height'')]), tr)))
       else if action = ''extract'' then
         (if \<not> truthy (field params ''selector'') then (Inl (Error ''selector is required''), tr)
          else
            call ''evaluate'' (op_evaluate ops (ExtractScript (field params ''selector''))) tr
              (\<lambda>result tr. (Inr result, tr)))
       else if action = ''evaluate'' then
         (if \<not> truthy (field params ''script'') then (Inl (Error ''script is required''), tr)
          else
            call ''evaluate'' (op_evaluate ops (UserScript (field params ''script''))) tr
              (\<lambda>result tr. (Inr (JObj [(''result'', result)]), tr)))
       else if action = ''get_page_info'' then
         call ''getPageInfo'' (op_getPageInfo ops) tr (\<lambda>info tr. (Inr info, tr))
       else if action = ''get_tabs'' then
         call ''getAllTabsInfo'' (op_getAllTabsInfo ops) tr (\<lambda>tabs tr.
           (Inr (JObj [(''tabs'', tabs)]), tr))
       else if action = ''switch_tab'' then
         (if \<not> truthy (field params ''tabId'') then (Inl (Error ''tabId is required''), tr)
          else
            call ''switchToTab'' (op_switchToTab ops (field params ''tabId'')) tr (\<lambda>_ tr.
              (Inr (JObj [(''switched'', JBool True)]), tr)))
       else if action = ''press_key'' then
         (if \<not> truthy (field params ''key'') then (Inl (Error ''key is required''), tr)
          else
            call ''pressKey'' (op_pressKey ops (field params ''key'')) tr (\<lambda>_ tr.
              (Inr (JObj [(''pressed'', JBool True), (''key'', field params ''key'')]), tr)))
       else if action = ''select_option'' then
         (if \<not> truthy (field params ''selector'') then (Inl (Error ''selector is required''), tr)
          else
            call ''selectOption''
              (op_selectOption ops (field params ''selector'') (field params ''value'')
                 (field params ''text'') (field params ''index'')) tr (\<lambda>result tr.
              (Inr (spread [(''selected'', JBool True)] result), tr)))
       else if action = ''go_back'' then
         call ''goBack'' (op_goBack ops) tr (\<lambda>_ tr. (Inr (JObj [(''navigated'', JBool True)]), tr))
       else if action = ''go_forward'' then
         call ''goForward'' (op_goForward ops) tr (\<lambda>_ tr.
           (Inr (JObj [(''navigated'', JBool True)]), tr))
       else if action = ''reload'' then
         call ''reload'' (op_reload ops) tr (\<lambda>_ tr. (Inr (JObj [(''reloaded'', JBool True)]), tr))
       else if action \<in> set ai_actions then
         call ''ai'' (op_ai ops action params) tr (\<lambda>result tr. (Inr result, tr))
       else (Inl (Error (''Unknown action: '' @ action)), tr))"

text \<open>
  Two properties of a trace of awaited operations. \<open>clean\<close>: no operation so far raised
  an error, the caught navigation wait apart. \<open>faithful\<close>: every error raised by an
  operation, the caught navigation wait apart, is the error the function ended with.
\<close>

definition clean :: "op_trace \<Rightarrow> bool" where
  "clean tr \<longleftrightarrow> (\<forall>n e. (n, Some e) \<in> set tr \<longrightarrow> n = ''waitForNavigation'')"

definition faithful :: "(thrown + json) \<times> op_trace \<Rightarrow> bool" where
  "faithful rt \<longleftrightarrow>
     (\<forall>n e. (n, Some e) \<in> set (snd rt) \<longrightarrow> n = ''waitForNavigation'' \<or> fst rt = Inl e)"

text \<open>
  \<open>showOverlay\<close> and \<open>hideOverlay\<close> wrap their messaging in \<open>try { } catch { }\<close>;
  the argument is the outcome of that messaging.
\<close>

definition showOverlay :: "thrown + unit \<Rightarrow> thrown + unit" where
  "showOverlay sent_to_tab = (case sent_to_tab of Inl e \<Rightarrow> Inr () | Inr _ \<Rightarrow> Inr ())"

definition hideOverlay :: "thrown + unit \<Rightarrow> thrown + unit" where
  "hideOverlay sent_to_tab = (case sent_to_tab of Inl e \<Rightarrow> Inr () | Inr _ \<Rightarrow> Inr ())"

definition OPERATION_STATUS :: "(string \<times> string) list" where
  "OPERATION_STATUS =
     [(''navigate'', ''Navigating...''), (''click'', ''Clicking element...''),
      (''type'', ''Typing text...''), (''scroll'', ''Scrolling page...''),
      (''screenshot'', ''Taking screenshot...''), (''extract'', ''Extracting content...''),
      (''evaluate'', ''Executing script...''), (''ai_chat'', ''AI thinking...''),
      (''ai_generate'', ''AI generating...'')]"

record mcp_response =
  mcp_success :: bool
  mcp_data :: json
  mcp_error :: "string option"

definition message_of :: "thrown \<Rightarrow> string" where
  "message_of e = (case e of Error m \<Rightarrow> m | NonError \<Rightarrow> ''Unknown error'')"

definition failure_response :: "thrown \<Rightarrow> mcp_response" where
  "failure_response e =
     \<lparr>mcp_success = False, mcp_data = JUndefined, mcp_error = Some (message_of e)\<rparr>"

definition handleMCPRequest :: "page_ops \<Rightarrow> thrown + unit \<Rightarrow> thrown + unit \<Rightarrow> string \<Rightarrow> json \<Rightarrow> mcp_response" where
  "handleMCPRequest ops show_sent hide_sent action params =
     (case (if map_of OPERATION_STATUS action \<noteq> None then showOverlay show_sent else Inr ()) of
        Inl e \<Rightarrow> (case hideOverlay hide_sent of _ \<Rightarrow> failure_response e)
      | Inr _ \<Rightarrow>
          (case fst (executeAction ops action (or_default params (JObj []))) of
             Inl e \<Rightarrow> (case hideOverlay hide_sent of _ \<Rightarrow> failure_response e)
           | Inr result \<Rightarrow>
               (case (if map_of OPERATION_STATUS action \<noteq> None then hideOverlay hide_sent
                      else Inr ()) of
                  Inl e \<Rightarrow> (case hideOverlay hide_sent of _ \<Rightarrow> failure_response e)
                | Inr _ \<Rightarrow>
                    \<lparr>mcp_success = True, mcp_data = result, mcp_error = None\<rparr>)))"

text \<open>
  The Response payload as the wire format has it. The relay that puts
  \<open>handleMCPRequest\<close>'s answer on the socket is not among the sources; the theorems take
  a payload with the same three fields.
\<close>

definition payload_of :: "mcp_response \<Rightarrow> payload" where
  "payload_of r = \<lparr>success = mcp_success r, data = mcp_data r, error = mcp_error r\<rparr>"

section \<open>Tool dispatcher (the \<open>CallToolRequestSchema\<close> handler)\<close>

definition tool_mapping :: "(string \<times> string) list" where
  "tool_mapping =
     [(''browser_navigate'', ''navigate''), (''browser_click'', ''click''),
      (''browser_type'', ''type''), (''browser_scroll'', ''scroll''),
      (''browser_screenshot'', ''screenshot''), (''browser_extract'', ''extract''),
      (''browser_evaluate'', ''evaluate''), (''browser_get_page_info'', ''get_page_info''),
      (''browser_get_tabs'', ''get_tabs''), (''browser_switch_tab'', ''switch_tab''),
      (''browser_press_key'', ''press_key''), (''browser_select_option'', ''select_option''),
      (''browser_go_back'', ''go_back''), (''browser_go_forward'', ''go_forward''),
      (''browser_reload'', ''reload'')]"

text \<open>
  \<open>mapping[toolName] || toolName\<close> on the table above. The table is an object literal:
  for the names of the members that every object inherits (\<open>constructor\<close>,
  \<open>toString\<close> and the like) the lookup in the source finds that member, which is not a
  string; these names are not tool names and the definition is not meant for them.
\<close>

definition getActionFromToolName :: "string \<Rightarrow> string" where
  "getActionFromToolName toolName =
     (case map_of tool_mapping toolName of
        None \<Rightarrow> toolName
      | Some a \<Rightarrow> if a = [] then toolName else a)"

datatype content_part = TextContent string | ImageContent json string

record tool_result =
  content :: "content_part list"
  isError :: bool

text \<open>\<open>typeof v === 'object'\<close> for a truthy \<open>v\<close>.\<close>

fun is_object :: "json \<Rightarrow> bool" where
  "is_object (JObj _) = True"
| "is_object (JArr _) = True"
| "is_object _ = False"

text \<open>
  The body of the handler after \<open>await sendToExtension(action, args)\<close> has settled:
  \<open>Inr result\<close> when it resolved, \<open>Inl e\<close> when it rejected (the \<open>catch\<close> branch).
  \<open>tostr\<close> is the string conversion of a template literal and \<open>stringify\<close> is
  \<open>JSON.stringify(\<cdot>, null, 2)\<close>, both built into the language.
\<close>

definition callTool :: "(json \<Rightarrow> string) \<Rightarrow> (json \<Rightarrow> string) \<Rightarrow> string \<Rightarrow> thrown + json \<Rightarrow> tool_result" where
  "callTool tostr stringify name settlement =
     (case settlement of
        Inl e \<Rightarrow> \<lparr>content = [TextContent (''Error: '' @ message_of e)], isError = True\<rparr>
      | Inr result \<Rightarrow>
          if name = ''browser_screenshot'' \<and> truthy result \<and> is_object result
             \<and> truthy (field result ''image'')
          then \<lparr>content =
                  [ImageContent (field result ''image'') ''image/png'',
                   TextContent (''Screenshot captured: '' @ tostr (field result ''width'') @
                                ''x'' @ tostr (field result ''height''))],
                isError = False\<rparr>
          else \<lparr>content = [TextContent (stringify result)], isError = False\<rparr>)"

text \<open>An executor whose every operation succeeds with an empty result, for examples.\<close>

definition quiet_ops :: page_ops where
  "quiet_ops =
     \<lparr>op_getActivePage = Inr (), op_navigateTo = (\<lambda>_. Inr (JObj [])),
      op_waitForNavigation = Inr (), op_getPageInfo = Inr (JObj []),
      op_clickElement = (\<lambda>_. Inr (JObj [])), op_clickAt = (\<lambda>_ _ _ _. Inr ()),
      op_typeInElement = (\<lambda>_ _ _ _. Inr ()), op_type = (\<lambda>_ _. Inr ()),
      op_scrollToElement = (\<lambda>_. Inr ()), op_scrollTo = (\<lambda>_ _. Inr ()),
      op_scroll = (\<lambda>_ _. Inr (JObj [])), op_captureScreenshot = (\<lambda>_ _ _. Inr (JStr [])),
      op_getViewportSize = Inr (JObj []), op_evaluate = (\<lambda>_. Inr JUndefined),
      op_getAllTabsInfo = Inr (JArr []), op_switchToTab = (\<lambda>_. Inr ()),
      op_pressKey = (\<lambda>_. Inr ()), op_selectOption = (\<lambda>_ _ _ _. Inr (JObj [])),
      op_goBack = Inr (), op_goForward = Inr (), op_reload = Inr (),
      op_ai = (\<lambda>_ _. Inr (JObj []))\<rparr>"

text \<open>Three more executors for examples: one operation fails, the others succeed.\<close>

definition nav_timeout_ops :: page_ops where
  "nav_timeout_ops =
     quiet_ops\<lparr>op_waitForNavigation := Inl (Error ''Navigation timeout''),
               op_getPageInfo := Inr (JObj [(''url'', JStr ''https://example.com/''),
                                            (''title'', JStr ''Example Domain'')])\<rparr>"

definition empty_error_ops :: page_ops where
  "empty_error_ops = quiet_ops\<lparr>op_evaluate := (\<lambda>_. Inl (Error []))\<rparr>"

definition nav_refused_ops :: page_ops where
  "nav_refused_ops =
     quiet_ops\<lparr>op_navigateTo := (\<lambda>_. Inl (Error ''Cannot navigate to invalid URL''))\<rparr>"

text \<open>
  A host for examples: it answers every script with an element centre of (1, 2), rejects
  the press of a mouse button and accepts every other command.
\<close>

definition refuses_press :: host where
  "refuses_press hlog c =
     (case c of
        DebuggerSendCommand tab method (Evaluate sc) \<Rightarrow>
          Inr (JObj [(''result'', JObj [(''value'', JObj [(''x'', JNum 1), (''y'', JNum 2)])])])
      | DebuggerSendCommand tab method (Params ps) \<Rightarrow>
          if map_of ps ''type'' = Some (JStr ''mousePressed'')
          then Inl (Error ''Detached while handling command.'')
          else Inr (JObj [])
      | _ \<Rightarrow> Inr (JObj []))"

section \<open>Page operations called by the executor\<close>

text \<open>
  \<open>await m\<close> followed by the rest of the function: an error ends the function with
  that error, a value is handed on together with the calls made so far. An operation is
  run on a session as it is when the operation starts; a forced detach while it runs makes
  its next \<open>send\<close> fail with the attachment error, which ends it in the same way.
\<close>

definition andThen :: "(thrown + 'a) \<times> host_call list \<Rightarrow> ('a \<Rightarrow> host_call list \<Rightarrow> (thrown + 'b) \<times> host_call list) \<Rightarrow> (thrown + 'b) \<times> host_call list" where
  "andThen m k = (case m of (Inl e, l) \<Rightarrow> (Inl e, l) | (Inr v, l) \<Rightarrow> k v l)"

definition navigateTo :: "host \<Rightarrow> transport \<Rightarrow> host_call list \<Rightarrow> string \<Rightarrow> (thrown + json) \<times> host_call list" where
  "navigateTo h t hlog url = send h t hlog ''Page.navigate'' (Params [(''url'', JStr url)])"

text \<open>
  \<open>goBack\<close> and \<open>goForward\<close> read \<open>currentIndex\<close> and \<open>entries\<close> from the reply of
  \<open>Page.getNavigationHistory\<close>, a number and an array in the protocol. On a reply where
  \<open>currentIndex\<close> is not a number the comparison is taken to fail. \<open>entry_at\<close> is the
  array read \<open>entries[q]\<close>, which is \<open>undefined\<close> outside the array; of anything but
  an array it is taken to be \<open>undefined\<close> as well. \<open>navigateToHistoryEntry\<close> is the
  common end of the two functions: it reads the \<open>id\<close> of the entry and sends the command
  of that name.
\<close>

definition entry_at :: "json \<Rightarrow> rat \<Rightarrow> json" where
  "entry_at entries q =
     (case entries of
        JArr xs \<Rightarrow>
          if 0 \<le> q \<and> of_int \<lfloor>q\<rfloor> = q \<and> nat \<lfloor>q\<rfloor> < length xs then xs ! nat \<lfloor>q\<rfloor>
          else JUndefined
      | _ \<Rightarrow> JUndefined)"

definition navigateToHistoryEntry :: "host \<Rightarrow> transport \<Rightarrow> host_call list \<Rightarrow> json \<Rightarrow> (thrown + unit) \<times> host_call list" where
  "navigateToHistoryEntry h t hlog entry =
     (if nullish entry then (Inl (cannot_read entry ''id''), hlog)
      else andThen (send h t hlog ''Page.navigateToHistoryEntry''
                      (Params [(''entryId'', field entry ''id'')]))
             (\<lambda>_ l. (Inr (), l)))"

definition goBack :: "host \<Rightarrow> transport \<Rightarrow> host_call list \<Rightarrow> (thrown + unit) \<times> host_call list" where
  "goBack h t hlog =
     andThen (send h t hlog ''Page.getNavigationHistory'' NoParams) (\<lambda>history l.
       if nullish history then (Inl (cannot_read history ''currentIndex''), l)
       else (case field history ''currentIndex'' of
               JNum n \<Rightarrow>
                 if n > 0
                 then navigateToHistoryEntry h t l (entry_at (field history ''entries'') (n - 1))
                 else (Inr (), l)
             | _ \<Rightarrow> (Inr (), l)))"

definition goForward :: "host \<Rightarrow> transport \<Rightarrow> host_call list \<Rightarrow> (thrown + unit) \<times> host_call list" where
  "goForward h t hlog =
     andThen (send h t hlog ''Page.getNavigationHistory'' NoParams) (\<lambda>history l.
       if nullish history then (Inl (cannot_read history ''currentIndex''), l)
       else if nullish (field history ''entries'')
       then (Inl (cannot_read (field history ''entries'') ''length''), l)
       else (case (field history ''currentIndex'', field history ''entries'') of
               (JNum n, JArr xs) \<Rightarrow>
                 if n < of_nat (length xs) - 1
                 then navigateToHistoryEntry h t l (entry_at (JArr xs) (n + 1))
                 else (Inr (), l)
             | _ \<Rightarrow> (Inr (), l)))"

definition reload :: "host \<Rightarrow> transport \<Rightarrow> host_call list \<Rightarrow> (thrown + unit) \<times> host_call list" where
  "reload h t hlog = andThen (send h t hlog ''Page.reload'' NoParams) (\<lambda>_ l. (Inr (), l))"

text \<open>
  \<open>captureScreenshot\<close>: the four option fields as given (\<open>JUndefined\<close> when absent),
  \<open>format\<close> defaulted with \<open>||\<close> and \<open>captureBeyondViewport\<close> with \<open>??\<close>.
\<close>

definition captureScreenshot_params :: "json \<Rightarrow> json \<Rightarrow> json \<Rightarrow> json \<Rightarrow> cdp_params" where
  "captureScreenshot_params format quality clip captureBeyondViewport =
     Params [(''format'', if truthy format then format else JStr ''png''),
             (''quality'', quality), (''clip'', clip),
             (''captureBeyondViewport'',
                if nullish captureBeyondViewport then JBool True else captureBeyondViewport)]"

definition captureScreenshot :: "host \<Rightarrow> transport \<Rightarrow> host_call list \<Rightarrow> json \<Rightarrow> json \<Rightarrow> json \<Rightarrow> json \<Rightarrow> (thrown + json) \<times> host_call list" where
  "captureScreenshot h t hlog format quality clip captureBeyondViewport =
     andThen (send h t hlog ''Page.captureScreenshot''
                (captureScreenshot_params format quality clip captureBeyondViewport))
       (\<lambda>result l. if nullish result then (Inl (cannot_read result ''data''), l)
                    else (Inr (field result ''data''), l))"

text \<open>
  \<open>type\<close>: one \<open>Input.insertText\<close> for the whole text when \<open>delay\<close> is 0 (its default),
  otherwise one per character, each followed by a sleep, which cannot fail.
\<close>

definition insertText :: "string \<Rightarrow> cdp_params" where
  "insertText s = Params [(''text'', JStr s)]"

fun type_chars :: "host \<Rightarrow> transport \<Rightarrow> host_call list \<Rightarrow> string \<Rightarrow> (thrown + unit) \<times> host_call list" where
  "type_chars h t hlog [] = (Inr (), hlog)"
| "type_chars h t hlog (c # cs) =
     andThen (send h t hlog ''Input.insertText'' (insertText [c])) (\<lambda>_ l. type_chars h t l cs)"

definition type :: "host \<Rightarrow> transport \<Rightarrow> host_call list \<Rightarrow> string \<Rightarrow> json \<Rightarrow> (thrown + unit) \<times> host_call list" where
  "type h t hlog text delay =
     (if delay = JUndefined \<or> delay = JNum 0
      then andThen (send h t hlog ''Input.insertText'' (insertText text)) (\<lambda>_ l. (Inr (), l))
      else type_chars h t hlog text)"

definition typeInElement :: "host \<Rightarrow> transport \<Rightarrow> host_call list \<Rightarrow> string \<Rightarrow> string \<Rightarrow> json \<Rightarrow> json \<Rightarrow> (thrown + unit) \<times> host_call list" where
  "typeInElement h t hlog selector text clearFirst delay =
     andThen (clickElement h t hlog selector) (\<lambda>_ l.
     andThen (if truthy clearFirst then evaluate h t l (ClearScript selector)
              else (Inr JUndefined, l)) (\<lambda>_ l2.
     type h t l2 text delay))"

definition keyEvent :: "string \<Rightarrow> string \<Rightarrow> cdp_params" where
  "keyEvent ty key = Params [(''type'', JStr ty), (''key'', JStr key)]"

definition pressKey :: "host \<Rightarrow> transport \<Rightarrow> host_call list \<Rightarrow> string \<Rightarrow> (thrown + unit) \<times> host_call list" where
  "pressKey h t hlog key =
     andThen (send h t hlog ''Input.dispatchKeyEvent'' (keyEvent ''keyDown'' key)) (\<lambda>_ l.
     andThen (send h t l ''Input.dispatchKeyEvent'' (keyEvent ''keyUp'' key)) (\<lambda>_ l2.
     (Inr (), l2)))"

definition mouseWheel :: "rat \<Rightarrow> rat \<Rightarrow> cdp_params" where
  "mouseWheel deltaX deltaY =
     Params [(''type'', JStr ''mouseWheel''), (''x'', JNum 400), (''y'', JNum 300),
             (''deltaX'', JNum deltaX), (''deltaY'', JNum deltaY)]"

definition scroll :: "host \<Rightarrow> transport \<Rightarrow> host_call list \<Rightarrow> string \<Rightarrow> rat \<Rightarrow> (thrown + json) \<times> host_call list" where
  "scroll h t hlog direction distance =
     (let deltaX = (if direction = ''left'' then - distance
                    else if direction = ''right'' then distance else 0);
          deltaY = (if direction = ''up'' then - distance
                    else if direction = ''down'' then distance else 0)
      in andThen (send h t hlog dispatchMouseEvent (mouseWheel deltaX deltaY)) (\<lambda>_ l.
         evaluate h t l ScrollPositionScript))"

definition scrollToElement :: "host \<Rightarrow> transport \<Rightarrow> host_call list \<Rightarrow> string \<Rightarrow> (thrown + unit) \<times> host_call list" where
  "scrollToElement h t hlog selector =
     andThen (evaluate h t hlog (ScrollIntoViewScript selector)) (\<lambda>_ l. (Inr (), l))"

definition scrollTo :: "host \<Rightarrow> transport \<Rightarrow> host_call list \<Rightarrow> json \<Rightarrow> json \<Rightarrow> (thrown + unit) \<times> host_call list" where
  "scrollTo h t hlog x y =
     andThen (evaluate h t hlog (ScrollToScript x y)) (\<lambda>_ l. (Inr (), l))"

definition getPageInfo :: "host \<Rightarrow> transport \<Rightarrow> host_call list \<Rightarrow> (thrown + json) \<times> host_call list" where
  "getPageInfo h t hlog = evaluate h t hlog PageInfoScript"

definition getViewportSize :: "host \<Rightarrow> transport \<Rightarrow> host_call list \<Rightarrow> (thrown + json) \<times> host_call list" where
  "getViewportSize h t hlog = evaluate h t hlog ViewportSizeScript"

text \<open>
  What was raised while the host calls \<open>cs\<close> were made, one after the other, after the
  calls \<open>l\<close>: the host's error for a call it rejected and, for a \<open>Runtime.evaluate\<close> it
  answered, the error that \<open>evaluate\<close> makes of the reply. \<open>passes_on\<close>: the operation
  only added calls, and every error raised on the way is the error it ended with.
\<close>

definition raised :: "host \<Rightarrow> host_call list \<Rightarrow> host_call \<Rightarrow> thrown list" where
  "raised h l c =
     (case h l c of
        Inl e \<Rightarrow> [e]
      | Inr reply \<Rightarrow>
          (case c of
             DebuggerSendCommand tab method (Evaluate sc) \<Rightarrow>
               if nullish reply then [cannot_read reply ''exceptionDetails'']
               else if truthy (field reply ''exceptionDetails'')
               then [Error (text_of (field (field reply ''exceptionDetails'') ''text''))]
               else if nullish (field reply ''result'')
               then [cannot_read (field reply ''result'') ''value'']
               else []
           | _ \<Rightarrow> []))"

fun replay :: "host \<Rightarrow> host_call list \<Rightarrow> host_call list \<Rightarrow> thrown list" where
  "replay h l [] = []"
| "replay h l (c # cs) = raised h l c @ replay h (l @ [c]) cs"

definition passes_on :: "host \<Rightarrow> host_call list \<Rightarrow> (thrown + 'a) \<times> host_call list \<Rightarrow> bool" where
  "passes_on h l0 res \<longleftrightarrow>
     take (length l0) (snd res) = l0 \<and>
     (\<forall>e \<in> set (replay h l0 (drop (length l0) (snd res))). fst res = Inl e)"

text \<open>The error of \<open>send\<close> on a session that is not attached.\<close>

definition not_attached :: thrown where
  "not_attached = Error ''Debugger not attached''"

section \<open>RPC bridge: correlation ids are distinct\<close>

lemma digit_inj: "a < 10 \<Longrightarrow> b < 10 \<Longrightarrow> digit a = digit b \<Longrightarrow> a = b"
  unfolding digit_def
  by (subst (asm) nth_eq_iff_index_eq) simp_all

lemma dec_nonempty: "dec n \<noteq> []"
  by (subst dec.simps) simp

lemma dec_length_ge10: "10 \<le> n \<Longrightarrow> 2 \<le> length (dec n)"
  using dec_nonempty[of "n div 10"]
  by (subst dec.simps) (simp add: Suc_le_eq)

lemma dec_inj: "dec n = dec m \<Longrightarrow> n = m"
proof (induction n arbitrary: m rule: dec.induct)
  case (1 n)
  show ?case
  proof (cases "n < 10")
    case True
    note n = this
    show ?thesis
    proof (cases "m < 10")
      case True
      with n "1.prems" show ?thesis
        by (simp add: dec.simps[of n] dec.simps[of m] digit_inj)
    next
      case False
      then have "2 \<le> length (dec m)" by (simp add: dec_length_ge10)
      moreover have "length (dec n) = 1" using n by (simp add: dec.simps[of n])
      ultimately show ?thesis using "1.prems" by simp
    qed
  next
    case False
    note n = this
    show ?thesis
    proof (cases "m < 10")
      case True
      then have "length (dec m) = 1" by (simp add: dec.simps[of m])
      moreover have "2 \<le> length (dec n)" using n by (simp add: dec_length_ge10)
      ultimately show ?thesis using "1.prems" by simp
    next
      case False
      with n "1.prems"
      have "dec (n div 10) @ [digit (n mod 10)] = dec (m div 10) @ [digit (m mod 10)]"
        by (simp add: dec.simps[of n] dec.simps[of m])
      then have q: "dec (n div 10) = dec (m div 10)"
        and d: "digit (n mod 10) = digit (m mod 10)" by simp_all
      from q have "n div 10 = m div 10" using "1.IH"[OF n] by simp
      moreover have "n mod 10 = m mod 10" using d by (auto intro: digit_inj)
      ultimately show ?thesis by (metis div_mult_mod_eq)
    qed
  qed
qed

lemma mk_id_inj: "mk_id n = mk_id m \<longleftrightarrow> n = m"
  by (auto simp: mk_id_def dest: dec_inj)

section \<open>RPC bridge: the invariant holds in every reachable state\<close>

lemma inv_init: "bridge_inv init_bridge"
  by (simp add: bridge_inv_def init_bridge_def sent_ids_def)

lemma invD_pending:
  "bridge_inv s \<Longrightarrow> map_of (pendingRequests s) i = Some h \<Longrightarrow>
     \<exists>t. map_of (timers s) h = Some t \<and> timer_id t = i"
  unfolding bridge_inv_def by blast

lemma invD_timer:
  "bridge_inv s \<Longrightarrow> map_of (timers s) h = Some t \<Longrightarrow>
     map_of (pendingRequests s) (timer_id t) = Some h \<and> h < nextTimer s \<and>
     timer_delay t = 30000 \<and> (timer_id t, timer_action t) \<in> set (sent_ids s)"
  unfolding bridge_inv_def by blast

lemma invD_sent:
  "bridge_inv s \<Longrightarrow> map fst (sent_ids s) = map mk_id [1..<Suc (requestIdCounter s)]"
  unfolding bridge_inv_def by blast

lemma invD_removed:
  "bridge_inv s \<Longrightarrow>
     set (map fst (removed s)) \<subseteq> mk_id ` {1..requestIdCounter s} \<and>
     distinct (map fst (removed s)) \<and>
     (\<forall>i \<in> set (map fst (removed s)). map_of (pendingRequests s) i = None)"
  unfolding bridge_inv_def by blast

lemma invD_settled:
  "bridge_inv s \<Longrightarrow>
     distinct (map fst (settled s)) \<and> set (map fst (settled s)) \<subseteq> set (map fst (removed s))"
  unfolding bridge_inv_def by blast

lemma invD_distinct: "bridge_inv s \<Longrightarrow> distinct (map fst (pendingRequests s))"
  unfolding bridge_inv_def by blast

lemma inv_pending_issued:
  assumes "bridge_inv s" and "map_of (pendingRequests s) i = Some h"
  shows "i \<in> mk_id ` {1..requestIdCounter s}"
proof -
  from invD_pending[OF assms] obtain t where t: "map_of (timers s) h = Some t" "timer_id t = i"
    by blast
  from invD_timer[OF assms(1) t(1)] t(2) have "(i, timer_action t) \<in> set (sent_ids s)"
    by simp
  then have "i \<in> set (map fst (sent_ids s))" by force
  also have "\<dots> = set (map mk_id [1..<Suc (requestIdCounter s)])"
    using invD_sent[OF assms(1)] by simp
  finally show ?thesis by auto
qed

lemma fresh_not_issued: "mk_id (Suc n) \<notin> mk_id ` {1..n}"
  by (auto simp: mk_id_inj)

lemma fresh_not_pending:
  assumes "bridge_inv s"
  shows "map_of (pendingRequests s) (mk_id (Suc (requestIdCounter s))) = None"
proof (rule ccontr)
  assume "map_of (pendingRequests s) (mk_id (Suc (requestIdCounter s))) \<noteq> None"
  then obtain h where "map_of (pendingRequests s) (mk_id (Suc (requestIdCounter s))) = Some h"
    by auto
  from inv_pending_issued[OF assms this] fresh_not_issued show False by blast
qed

lemma fresh_not_removed:
  assumes "bridge_inv s"
  shows "mk_id (Suc (requestIdCounter s)) \<notin> set (map fst (removed s))"
  using invD_removed[OF assms] fresh_not_issued[of "requestIdCounter s"] by blast

lemma fresh_timer:
  assumes "bridge_inv s"
  shows "map_of (timers s) (nextTimer s) = None"
proof (rule ccontr)
  assume "map_of (timers s) (nextTimer s) \<noteq> None"
  then obtain t where "map_of (timers s) (nextTimer s) = Some t" by auto
  from invD_timer[OF assms this] show False by simp
qed

lemma invD_removed_none:
  "bridge_inv s \<Longrightarrow> i \<in> set (map fst (removed s)) \<Longrightarrow> map_of (pendingRequests s) i = None"
  unfolding bridge_inv_def by blast


lemma bridge_invI:
  assumes "\<And>i h. map_of (pendingRequests s) i = Some h \<Longrightarrow>
             \<exists>t. map_of (timers s) h = Some t \<and> timer_id t = i"
    and "\<And>h t. map_of (timers s) h = Some t \<Longrightarrow>
             map_of (pendingRequests s) (timer_id t) = Some h \<and> h < nextTimer s \<and>
             timer_delay t = 30000 \<and> (timer_id t, timer_action t) \<in> set (sent_ids s)"
    and "map fst (sent_ids s) = map mk_id [1..<Suc (requestIdCounter s)]"
    and "set (map fst (removed s)) \<subseteq> mk_id ` {1..requestIdCounter s}"
    and "distinct (map fst (removed s))"
    and "\<And>i. i \<in> set (map fst (removed s)) \<Longrightarrow> map_of (pendingRequests s) i = None"
    and "distinct (map fst (settled s))"
    and "set (map fst (settled s)) \<subseteq> set (map fst (removed s))"
    and "distinct (map fst (pendingRequests s))"
  shows "bridge_inv s"
  unfolding bridge_inv_def using assms by blast

lemma sendToExtension_connected:
  assumes "extensionClient s = Some ws" and "readyState s ws = OPEN"
  shows "sendToExtension s action params =
     (Inr (mk_id (Suc (requestIdCounter s))),
      s\<lparr>requestIdCounter := Suc (requestIdCounter s),
        timers := AList.update (nextTimer s)
          \<lparr>timer_id = mk_id (Suc (requestIdCounter s)), timer_action = action,
           timer_delay = 30000\<rparr> (timers s),
        nextTimer := Suc (nextTimer s),
        pendingRequests :=
          AList.update (mk_id (Suc (requestIdCounter s))) (nextTimer s) (pendingRequests s),
        sent := sent s @ [(ws, \<lparr>req_id = mk_id (Suc (requestIdCounter s)), req_action = action,
                                req_params = params\<rparr>)]\<rparr>)"
  using assms by (simp add: sendToExtension_def Let_def)

lemma sendToExtension_not_connected:
  assumes "\<not> peer_connected s"
  shows "sendToExtension s action params = (Inl not_connected_error, s)"
  using assms by (simp add: sendToExtension_def peer_connected_def split: option.splits)

lemma inv_send:
  assumes inv: "bridge_inv s"
  shows "bridge_inv (snd (sendToExtension s action params))"
proof (cases "peer_connected s")
  case False
  then show ?thesis using inv by (simp add: sendToExtension_not_connected)
next
  case True
  then obtain ws where ws: "extensionClient s = Some ws" "readyState s ws = OPEN"
    by (auto simp: peer_connected_def split: option.splits)
  define i where "i = mk_id (Suc (requestIdCounter s))"
  define h where "h = nextTimer s"
  define tm where "tm = \<lparr>timer_id = i, timer_action = action, timer_delay = 30000\<rparr>"
  define s' where "s' = snd (sendToExtension s action params)"
  have s': "s' = s\<lparr>requestIdCounter := Suc (requestIdCounter s),
        timers := AList.update h tm (timers s),
        nextTimer := Suc h,
        pendingRequests := AList.update i h (pendingRequests s),
        sent := sent s @ [(ws, \<lparr>req_id = i, req_action = action, req_params = params\<rparr>)]\<rparr>"
    by (simp add: s'_def sendToExtension_connected[OF ws] i_def h_def tm_def)
  have fp: "map_of (pendingRequests s) i = None"
    unfolding i_def by (rule fresh_not_pending[OF inv])
  have fr: "i \<notin> set (map fst (removed s))"
    unfolding i_def by (rule fresh_not_removed[OF inv])
  have ft: "map_of (timers s) h = None"
    unfolding h_def by (rule fresh_timer[OF inv])
  have "bridge_inv s'"
  proof (rule bridge_invI)
    fix j k assume "map_of (pendingRequests s') j = Some k"
    then have jk: "(j = i \<and> k = h) \<or> (j \<noteq> i \<and> map_of (pendingRequests s) j = Some k)"
      by (auto simp: s' update_conv' split: if_splits)
    then show "\<exists>t. map_of (timers s') k = Some t \<and> timer_id t = j"
    proof
      assume "j = i \<and> k = h"
      then show ?thesis by (simp add: s' update_conv' tm_def)
    next
      assume a: "j \<noteq> i \<and> map_of (pendingRequests s) j = Some k"
      then obtain t where t: "map_of (timers s) k = Some t" "timer_id t = j"
        using invD_pending[OF inv] by blast
      with ft have "k \<noteq> h" by auto
      with t show ?thesis by (simp add: s' update_conv')
    qed
  next
    fix k t assume "map_of (timers s') k = Some t"
    then have kt: "(k = h \<and> t = tm) \<or> (k \<noteq> h \<and> map_of (timers s) k = Some t)"
      by (auto simp: s' update_conv' split: if_splits)
    then show "map_of (pendingRequests s') (timer_id t) = Some k \<and> k < nextTimer s' \<and>
             timer_delay t = 30000 \<and> (timer_id t, timer_action t) \<in> set (sent_ids s')"
    proof
      assume "k = h \<and> t = tm"
      then show ?thesis by (simp add: s' update_conv' tm_def sent_ids_def)
    next
      assume a: "k \<noteq> h \<and> map_of (timers s) k = Some t"
      note d = invD_timer[OF inv conjunct2[OF a]]
      from d fp have "timer_id t \<noteq> i" by auto
      with d a show ?thesis by (simp add: s' update_conv' sent_ids_def h_def)
    qed
  next
    show "map fst (sent_ids s') = map mk_id [1..<Suc (requestIdCounter s')]"
      using invD_sent[OF inv] by (simp add: s' sent_ids_def i_def)
  next
    show "set (map fst (removed s')) \<subseteq> mk_id ` {1..requestIdCounter s'}"
      using invD_removed[OF inv] by (auto simp: s')
  next
    show "distinct (map fst (removed s'))"
      using invD_removed[OF inv] by (simp add: s')
  next
    fix j assume "j \<in> set (map fst (removed s'))"
    then have j: "j \<in> set (map fst (removed s))" by (simp add: s')
    with fr have "j \<noteq> i" by auto
    with invD_removed_none[OF inv j] show "map_of (pendingRequests s') j = None"
      by (simp add: s' update_conv')
  next
    show "distinct (map fst (settled s'))"
      using invD_settled[OF inv] by (simp add: s')
  next
    show "set (map fst (settled s')) \<subseteq> set (map fst (removed s'))"
      using invD_settled[OF inv] by (simp add: s')
  next
    show "distinct (map fst (pendingRequests s'))"
      using invD_distinct[OF inv] by (simp add: s' distinct_update)
  qed
  then show ?thesis by (simp add: s'_def)
qed


lemma inv_timeout:
  assumes inv: "bridge_inv s"
  shows "bridge_inv (onTimeout s h)"
proof (cases "map_of (timers s) h")
  case None
  then show ?thesis using inv by (simp add: onTimeout_def)
next
  case (Some t)
  define i where "i = timer_id t"
  note d = invD_timer[OF inv Some]
  have pi: "map_of (pendingRequests s) i = Some h" using d by (simp add: i_def)
  define s' where "s' = onTimeout s h"
  have s': "s' = s\<lparr>timers := AList.delete h (timers s),
            pendingRequests := AList.delete i (pendingRequests s),
            removed := removed s @ [(i, ByTimeout)],
            settled := settled s @
              [(i, Rejected (Error (''Request timeout: '' @ timer_action t)))]\<rparr>"
    using Some pi by (simp add: s'_def onTimeout_def i_def)
  have nr: "i \<notin> set (map fst (removed s))"
    using invD_removed_none[OF inv, of i] pi by auto
  have ns: "i \<notin> set (map fst (settled s))"
    using nr invD_settled[OF inv] by blast
  have "bridge_inv s'"
  proof (rule bridge_invI)
    fix j k assume "map_of (pendingRequests s') j = Some k"
    then have jk: "j \<noteq> i" "map_of (pendingRequests s) j = Some k"
      by (auto simp: s' delete_conv' split: if_splits)
    then obtain u where u: "map_of (timers s) k = Some u" "timer_id u = j"
      using invD_pending[OF inv] by blast
    have "k \<noteq> h" using u Some jk(1) by (auto simp: i_def)
    with u show "\<exists>t. map_of (timers s') k = Some t \<and> timer_id t = j"
      by (simp add: s' delete_conv')
  next
    fix k u assume "map_of (timers s') k = Some u"
    then have ku: "k \<noteq> h" "map_of (timers s) k = Some u"
      by (auto simp: s' delete_conv' split: if_splits)
    note e = invD_timer[OF inv ku(2)]
    have "timer_id u \<noteq> i" using e pi ku(1) by auto
    with e show "map_of (pendingRequests s') (timer_id u) = Some k \<and> k < nextTimer s' \<and>
             timer_delay u = 30000 \<and> (timer_id u, timer_action u) \<in> set (sent_ids s')"
      by (simp add: s' delete_conv' sent_ids_def)
  next
    show "map fst (sent_ids s') = map mk_id [1..<Suc (requestIdCounter s')]"
      using invD_sent[OF inv] by (simp add: s' sent_ids_def)
  next
    show "set (map fst (removed s')) \<subseteq> mk_id ` {1..requestIdCounter s'}"
      using invD_removed[OF inv] inv_pending_issued[OF inv pi] by (auto simp: s')
  next
    show "distinct (map fst (removed s'))"
      using invD_removed[OF inv] nr by (simp add: s')
  next
    fix j assume "j \<in> set (map fst (removed s'))"
    then have "j = i \<or> j \<in> set (map fst (removed s))" by (auto simp: s')
    then show "map_of (pendingRequests s') j = None"
      using invD_removed_none[OF inv, of j] by (auto simp: s' delete_conv')
  next
    show "distinct (map fst (settled s'))"
      using invD_settled[OF inv] ns by (simp add: s')
  next
    show "set (map fst (settled s')) \<subseteq> set (map fst (removed s'))"
      using invD_settled[OF inv] by (auto simp: s')
  next
    show "distinct (map fst (pendingRequests s'))"
      using invD_distinct[OF inv] by (simp add: s' distinct_delete)
  qed
  then show ?thesis by (simp add: s'_def)
qed

text \<open>The part of the \<open>message\<close> handler that runs before the payload is read.\<close>

lemma inv_take_entry:
  assumes inv: "bridge_inv s" and pi: "map_of (pendingRequests s) i = Some h"
  shows "bridge_inv (s\<lparr>timers := AList.delete h (timers s),
                       pendingRequests := AList.delete i (pendingRequests s),
                       removed := removed s @ [(i, ByResponse)]\<rparr>)"
    (is "bridge_inv ?s'")
proof -
  obtain t where t: "map_of (timers s) h = Some t" "timer_id t = i"
    using invD_pending[OF inv pi] by blast
  have nr: "i \<notin> set (map fst (removed s))"
    using invD_removed_none[OF inv, of i] pi by auto
  show ?thesis
  proof (rule bridge_invI)
    fix j k assume "map_of (pendingRequests ?s') j = Some k"
    then have jk: "j \<noteq> i" "map_of (pendingRequests s) j = Some k"
      by (auto simp: delete_conv' split: if_splits)
    then obtain u where u: "map_of (timers s) k = Some u" "timer_id u = j"
      using invD_pending[OF inv] by blast
    have "k \<noteq> h" using u t jk(1) by auto
    with u show "\<exists>t. map_of (timers ?s') k = Some t \<and> timer_id t = j"
      by (simp add: delete_conv')
  next
    fix k u assume "map_of (timers ?s') k = Some u"
    then have ku: "k \<noteq> h" "map_of (timers s) k = Some u"
      by (auto simp: delete_conv' split: if_splits)
    note e = invD_timer[OF inv ku(2)]
    have "timer_id u \<noteq> i" using e pi ku(1) by auto
    with e show "map_of (pendingRequests ?s') (timer_id u) = Some k \<and> k < nextTimer ?s' \<and>
             timer_delay u = 30000 \<and> (timer_id u, timer_action u) \<in> set (sent_ids ?s')"
      by (simp add: delete_conv' sent_ids_def)
  next
    show "map fst (sent_ids ?s') = map mk_id [1..<Suc (requestIdCounter ?s')]"
      using invD_sent[OF inv] by (simp add: sent_ids_def)
  next
    show "set (map fst (removed ?s')) \<subseteq> mk_id ` {1..requestIdCounter ?s'}"
      using invD_removed[OF inv] inv_pending_issued[OF inv pi] by auto
  next
    show "distinct (map fst (removed ?s'))"
      using invD_removed[OF inv] nr by simp
  next
    fix j assume "j \<in> set (map fst (removed ?s'))"
    then have "j = i \<or> j \<in> set (map fst (removed s))" by auto
    then show "map_of (pendingRequests ?s') j = None"
      using invD_removed_none[OF inv, of j] by (auto simp: delete_conv')
  next
    show "distinct (map fst (settled ?s'))"
      using invD_settled[OF inv] by simp
  next
    show "set (map fst (settled ?s')) \<subseteq> set (map fst (removed ?s'))"
      using invD_settled[OF inv] by auto
  next
    show "distinct (map fst (pendingRequests ?s'))"
      using invD_distinct[OF inv] by (simp add: distinct_delete)
  qed
qed

lemma inv_settle:
  assumes inv: "bridge_inv s" and "i \<in> set (map fst (removed s))"
    and "i \<notin> set (map fst (settled s))"
  shows "bridge_inv (s\<lparr>settled := settled s @ [(i, x)]\<rparr>)"
  using assms unfolding bridge_inv_def sent_ids_def by simp

lemma inv_message:
  assumes inv: "bridge_inv s"
  shows "bridge_inv (onMessage s m)"
proof (cases m)
  case (Response i p)
  show ?thesis
  proof (cases "map_of (pendingRequests s) i")
    case None
    then show ?thesis using inv Response by (simp add: onMessage_def)
  next
    case (Some h)
    define s1 where "s1 = s\<lparr>timers := AList.delete h (timers s),
                       pendingRequests := AList.delete i (pendingRequests s),
                       removed := removed s @ [(i, ByResponse)]\<rparr>"
    have i1: "bridge_inv s1" unfolding s1_def by (rule inv_take_entry[OF inv Some])
    have nr: "i \<notin> set (map fst (removed s))"
      using invD_removed_none[OF inv, of i] Some by auto
    have ns: "i \<notin> set (map fst (settled s1))"
      using nr invD_settled[OF inv] by (auto simp: s1_def)
    have r1: "i \<in> set (map fst (removed s1))" by (simp add: s1_def)
    have "onMessage s m =
            (case p of None \<Rightarrow> s1
             | Some pl \<Rightarrow> if success pl
                 then s1\<lparr>settled := settled s1 @ [(i, Resolved (data pl))]\<rparr>
                 else s1\<lparr>settled := settled s1 @
                        [(i, Rejected (Error (error_or_unknown (error pl))))]\<rparr>)"
      using Some Response by (simp add: onMessage_def s1_def Let_def split: option.splits)
    then show ?thesis
      using i1 inv_settle[OF i1 r1 ns] by (simp split: option.splits)
  qed
qed (use inv in \<open>simp_all add: onMessage_def\<close>)

lemma inv_socket_fields [simp]:
  "bridge_inv (s\<lparr>readyState := f\<rparr>) = bridge_inv s"
  "bridge_inv (s\<lparr>extensionClient := c\<rparr>) = bridge_inv s"
  by (simp_all add: bridge_inv_def sent_ids_def)

lemma inv_other:
  assumes "bridge_inv s"
  shows "bridge_inv (onConnection s ws)" and "bridge_inv (onClose s ws)"
  using assms by (simp_all add: onConnection_def onClose_def Let_def)

lemma inv_step: "bridge_inv s \<Longrightarrow> bridge_inv (step s e)"
  by (cases e) (simp_all add: inv_send inv_timeout inv_message inv_other)

lemma inv_run: "bridge_inv s \<Longrightarrow> bridge_inv (run s es)"
  unfolding run_def by (induction es arbitrary: s) (simp_all add: inv_step)

section \<open>RPC bridge: pending entries\<close>

lemma at_most_one_entry:
  "distinct (map fst xs) \<Longrightarrow> length (filter (\<lambda>e. fst e = i) xs) \<le> 1"
proof (induction xs)
  case Nil
  then show ?case by simp
next
  case (Cons x xs)
  show ?case
  proof (cases "fst x = i")
    case True
    with Cons.prems have "i \<notin> fst ` set xs" by auto
    then have "filter (\<lambda>e. fst e = i) xs = []" by (auto simp: filter_empty_conv)
    with True show ?thesis by simp
  next
    case False
    with Cons show ?thesis by simp
  qed
qed

lemma message_unknown_id:
  "map_of (pendingRequests s) i = None \<Longrightarrow> onMessage s (Response i p) = s"
  by (simp add: onMessage_def)

lemma timeout_removes_entry:
  "map_of (timers s) h = Some t \<Longrightarrow> map_of (pendingRequests (onTimeout s h)) (timer_id t) = None"
  by (simp add: onTimeout_def delete_conv')

lemma send_result_fresh:
  assumes inv: "bridge_inv s" and "sendToExtension s action params = (Inr i, s')"
  shows "i = mk_id (Suc (requestIdCounter s))"
    and "map_of (pendingRequests s) i = None"
    and "i \<notin> set (map fst (removed s))"
    and "i \<notin> set (map fst (settled s))"
proof -
  have c: "peer_connected s"
    using assms(2) sendToExtension_not_connected[of s action params] by auto
  then obtain ws where ws: "extensionClient s = Some ws" "readyState s ws = OPEN"
    by (auto simp: peer_connected_def split: option.splits)
  from assms(2) show i: "i = mk_id (Suc (requestIdCounter s))"
    by (simp add: sendToExtension_connected[OF ws])
  show "map_of (pendingRequests s) i = None"
    unfolding i by (rule fresh_not_pending[OF inv])
  show r: "i \<notin> set (map fst (removed s))"
    unfolding i by (rule fresh_not_removed[OF inv])
  show "i \<notin> set (map fst (settled s))"
    using r invD_settled[OF inv] by blast
qed

lemma pending_entry_leaves:
  assumes inv: "bridge_inv s" and p: "map_of (pendingRequests s) i = Some h"
  shows "(\<exists>t. map_of (timers s) h = Some t \<and> timer_id t = i) \<and>
        map_of (pendingRequests (onTimeout s h)) i = None \<and>
        removed (onTimeout s h) = removed s @ [(i, ByTimeout)] \<and>
        map_of (pendingRequests (onMessage s (Response i pl))) i = None \<and>
        removed (onMessage s (Response i pl)) = removed s @ [(i, ByResponse)]"
proof -
  obtain t where t: "map_of (timers s) h = Some t" "timer_id t = i"
    using invD_pending[OF inv p] by blast
  have a: "map_of (pendingRequests (onTimeout s h)) i = None"
    using timeout_removes_entry[OF t(1)] t(2) by simp
  have b: "removed (onTimeout s h) = removed s @ [(i, ByTimeout)]"
    using t p by (simp add: onTimeout_def)
  have c: "map_of (pendingRequests (onMessage s (Response i pl))) i = None"
    using p by (cases pl) (simp_all add: onMessage_def Let_def delete_conv')
  have d: "removed (onMessage s (Response i pl)) = removed s @ [(i, ByResponse)]"
    using p by (cases pl) (simp_all add: onMessage_def Let_def)
  from t a b c d show ?thesis by blast
qed

text \<open>
  Claim C1. In every state the bridge can reach, the pending table holds at most one
  entry per correlation id; no id is removed twice and no caller is settled twice (so
  never once by a Response and once by the timeout); an id that was removed is not
  pending again; the id a call issues is neither pending nor already removed; and a
  Response whose id is not pending, in particular one arriving after the timeout has
  removed the entry, leaves the whole state unchanged. Every pending entry has its armed
  timer, and it leaves the table both ways: the timer firing removes it, recorded as a
  removal by timeout, and a Response with its id removes it, recorded as a removal by
  response.
\<close>

theorem pending_entry_unique_removed_once:
  "(\<forall>i. length (filter (\<lambda>e. fst e = i) (pendingRequests (run init_bridge es))) \<le> 1)
   \<and> distinct (map fst (removed (run init_bridge es)))
   \<and> distinct (map fst (settled (run init_bridge es)))
   \<and> (\<forall>i \<in> set (map fst (removed (run init_bridge es))).
        map_of (pendingRequests (run init_bridge es)) i = None)
   \<and> (\<forall>action params i s'.
        sendToExtension (run init_bridge es) action params = (Inr i, s') \<longrightarrow>
          map_of (pendingRequests (run init_bridge es)) i = None \<and>
          i \<notin> set (map fst (removed (run init_bridge es))))
   \<and> (\<forall>i p. map_of (pendingRequests (run init_bridge es)) i = None \<longrightarrow>
        onMessage (run init_bridge es) (Response i p) = run init_bridge es)
   \<and> (\<forall>h t p. map_of (timers (run init_bridge es)) h = Some t \<longrightarrow>
        onMessage (onTimeout (run init_bridge es) h) (Response (timer_id t) p) =
          onTimeout (run init_bridge es) h)
   \<and> (\<forall>i h p. map_of (pendingRequests (run init_bridge es)) i = Some h \<longrightarrow>
        (\<exists>t. map_of (timers (run init_bridge es)) h = Some t \<and> timer_id t = i) \<and>
        map_of (pendingRequests (onTimeout (run init_bridge es) h)) i = None \<and>
        removed (onTimeout (run init_bridge es) h) =
          removed (run init_bridge es) @ [(i, ByTimeout)] \<and>
        map_of (pendingRequests (onMessage (run init_bridge es) (Response i p))) i = None \<and>
        removed (onMessage (run init_bridge es) (Response i p)) =
          removed (run init_bridge es) @ [(i, ByResponse)])"
proof -
  define s where "s = run init_bridge es"
  have inv: "bridge_inv s" unfolding s_def by (rule inv_run[OF inv_init])
  have "\<forall>i. length (filter (\<lambda>e. fst e = i) (pendingRequests s)) \<le> 1"
    using at_most_one_entry[OF invD_distinct[OF inv]] by blast
  moreover have "distinct (map fst (removed s))" using invD_removed[OF inv] by blast
  moreover have "distinct (map fst (settled s))" using invD_settled[OF inv] by blast
  moreover have "\<forall>i \<in> set (map fst (removed s)). map_of (pendingRequests s) i = None"
    using invD_removed_none[OF inv] by blast
  moreover have "\<forall>action params i s'.
        sendToExtension s action params = (Inr i, s') \<longrightarrow>
          map_of (pendingRequests s) i = None \<and> i \<notin> set (map fst (removed s))"
    using send_result_fresh[OF inv] by blast
  moreover have "\<forall>i p. map_of (pendingRequests s) i = None \<longrightarrow> onMessage s (Response i p) = s"
    using message_unknown_id by blast
  moreover have "\<forall>h t p. map_of (timers s) h = Some t \<longrightarrow>
        onMessage (onTimeout s h) (Response (timer_id t) p) = onTimeout s h"
    using message_unknown_id timeout_removes_entry by blast
  moreover have "\<forall>i h p. map_of (pendingRequests s) i = Some h \<longrightarrow>
        (\<exists>t. map_of (timers s) h = Some t \<and> timer_id t = i) \<and>
        map_of (pendingRequests (onTimeout s h)) i = None \<and>
        removed (onTimeout s h) = removed s @ [(i, ByTimeout)] \<and>
        map_of (pendingRequests (onMessage s (Response i p))) i = None \<and>
        removed (onMessage s (Response i p)) = removed s @ [(i, ByResponse)]"
    using pending_entry_leaves[OF inv] by blast
  ultimately show ?thesis unfolding s_def by blast
qed

lemmas bridge_eval =
  run_def init_bridge_def onConnection_def onClose_def sendToExtension_def onMessage_def
  onTimeout_def mk_id_def dec.simps digit_def error_or_unknown_def Let_def peer_connected_def
  not_connected_error_def

theorem pending_entry_unique_removed_once_witness:
  "removed (run init_bridge [Connection 0, Call ''navigate'' JNull, TimerFires 0]) =
     [(''req_1'', ByTimeout)]
   \<and> onMessage (run init_bridge [Connection 0, Call ''navigate'' JNull, TimerFires 0])
        (Response ''req_1'' (Some \<lparr>success = True, data = JNull, error = None\<rparr>)) =
      run init_bridge [Connection 0, Call ''navigate'' JNull, TimerFires 0]
   \<and> onMessage (onTimeout (run init_bridge [Connection 0, Call ''navigate'' JNull]) 0)
        (Response ''req_1'' (Some \<lparr>success = True, data = JNull, error = None\<rparr>)) =
      onTimeout (run init_bridge [Connection 0, Call ''navigate'' JNull]) 0
   \<and> map_of (pendingRequests (run init_bridge [Connection 0, Call ''navigate'' JNull, TimerFires 0]))
        ''req_2'' = None
   \<and> ''req_2'' \<notin> set (map fst (removed
        (run init_bridge [Connection 0, Call ''navigate'' JNull, TimerFires 0])))
   \<and> removed (onMessage (run init_bridge [Connection 0, Call ''navigate'' JNull])
        (Response ''req_1'' (Some \<lparr>success = True, data = JNull, error = None\<rparr>))) =
      [(''req_1'', ByResponse)]
   \<and> distinct (map fst (settled (run init_bridge
        [Connection 0, Call ''navigate'' JNull, TimerFires 0,
         Message (Response ''req_1'' (Some \<lparr>success = True, data = JNull, error = None\<rparr>))])))"
proof -
  let ?es = "[Connection 0, Call ''navigate'' JNull, TimerFires 0]"
  let ?es1 = "[Connection 0, Call ''navigate'' JNull]"
  let ?ok = "\<lparr>success = True, data = JNull, error = None\<rparr>"
  have r: "removed (run init_bridge ?es) = [(''req_1'', ByTimeout)]"
    by (simp add: bridge_eval)
  have p: "map_of (pendingRequests (run init_bridge ?es)) ''req_1'' = None"
    by (simp add: bridge_eval)
  have rm: "''req_1'' \<in> set (map fst (removed (run init_bridge ?es)))"
    unfolding r by simp
  note i1 = pending_entry_unique_removed_once[of ?es]
  from i1 rm have p': "map_of (pendingRequests (run init_bridge ?es)) ''req_1'' = None"
    by blast
  from i1 p' have m: "onMessage (run init_bridge ?es) (Response ''req_1'' (Some ?ok)) =
        run init_bridge ?es"
    by blast
  have tm: "map_of (timers (run init_bridge ?es1)) 0 =
              Some \<lparr>timer_id = ''req_1'', timer_action = ''navigate'', timer_delay = 30000\<rparr>"
    by (simp add: bridge_eval)
  note i2 = pending_entry_unique_removed_once[of ?es1]
  from i2 tm have "onMessage (onTimeout (run init_bridge ?es1) 0)
        (Response (timer_id \<lparr>timer_id = ''req_1'', timer_action = ''navigate'',
                             timer_delay = 30000\<rparr>) (Some ?ok)) =
      onTimeout (run init_bridge ?es1) 0"
    by blast
  then have t: "onMessage (onTimeout (run init_bridge ?es1) 0) (Response ''req_1'' (Some ?ok)) =
      onTimeout (run init_bridge ?es1) 0"
    by simp
  have sd: "sendToExtension (run init_bridge ?es) ''click'' JNull =
              (Inr ''req_2'', snd (sendToExtension (run init_bridge ?es) ''click'' JNull))"
    by (simp add: bridge_eval)
  from i1 sd have f: "map_of (pendingRequests (run init_bridge ?es)) ''req_2'' = None \<and>
          ''req_2'' \<notin> set (map fst (removed (run init_bridge ?es)))"
    by blast
  have d: "distinct (map fst (settled (run init_bridge
        (?es @ [Message (Response ''req_1'' (Some ?ok))]))))"
    using pending_entry_unique_removed_once by blast
  have pd: "map_of (pendingRequests (run init_bridge ?es1)) ''req_1'' = Some 0"
    by (simp add: bridge_eval)
  have r0: "removed (run init_bridge ?es1) = []" by (simp add: bridge_eval)
  from i2 pd have "removed (onMessage (run init_bridge ?es1) (Response ''req_1'' (Some ?ok))) =
          removed (run init_bridge ?es1) @ [(''req_1'', ByResponse)]"
    by blast
  then have br: "removed (onMessage (run init_bridge ?es1) (Response ''req_1'' (Some ?ok))) =
          [(''req_1'', ByResponse)]"
    unfolding r0 by simp
  from r m t f br d show ?thesis by simp
qed

section \<open>RPC bridge: calls without a peer, and how a call settles\<close>

text \<open>
  Claim C2. With no peer connected the call is rejected at once with the connection
  error and the bridge state is left exactly as it was: no id is issued, no timer armed,
  no pending entry made, nothing written. No peer is connected before the first
  connection and after the close of the current peer. Since the state is unchanged, whatever
  happens later, a peer connecting included, happens as if the call had never been made.
\<close>

theorem no_peer_rejects_without_entry:
  "(\<not> peer_connected s \<longrightarrow> sendToExtension s action params = (Inl not_connected_error, s))
   \<and> \<not> peer_connected init_bridge
   \<and> (extensionClient s = Some ws \<longrightarrow> \<not> peer_connected (onClose s ws))
   \<and> (\<not> peer_connected s \<longrightarrow> run (step s (Call action params)) es = run s es)"
  by (simp add: sendToExtension_not_connected peer_connected_def init_bridge_def onClose_def Let_def)

theorem no_peer_rejects_without_entry_witness:
  "sendToExtension init_bridge ''navigate'' JNull = (Inl not_connected_error, init_bridge)
   \<and> sendToExtension (run init_bridge [Connection 0, Close 0]) ''navigate'' JNull =
       (Inl not_connected_error, run init_bridge [Connection 0, Close 0])
   \<and> settled (run (step (run init_bridge [Connection 0, Close 0]) (Call ''navigate'' JNull))
        [Connection 1, Message (Response ''req_1'' (Some \<lparr>success = True, data = JNull, error = None\<rparr>))])
       = []"
proof -
  let ?s = "run init_bridge [Connection 0, Close 0]"
  have c0: "\<not> peer_connected init_bridge"
    using no_peer_rejects_without_entry[of init_bridge] by blast
  have e: "extensionClient (onConnection init_bridge 0) = Some 0"
    by (simp add: onConnection_def)
  have s: "?s = onClose (onConnection init_bridge 0) 0" by (simp add: run_def)
  have c1: "\<not> peer_connected ?s"
    unfolding s using no_peer_rejects_without_entry[where s = "onConnection init_bridge 0" and ws = 0] e by blast
  have "run (step ?s (Call ''navigate'' JNull))
          [Connection 1, Message (Response ''req_1'' (Some \<lparr>success = True, data = JNull, error = None\<rparr>))]
        = run ?s [Connection 1, Message (Response ''req_1'' (Some \<lparr>success = True, data = JNull, error = None\<rparr>))]"
    using no_peer_rejects_without_entry[where s = ?s] c1 by blast
  moreover have "settled (run ?s [Connection 1, Message (Response ''req_1'' (Some \<lparr>success = True, data = JNull, error = None\<rparr>))]) = []"
    by (simp add: bridge_eval)
  ultimately show ?thesis
    using no_peer_rejects_without_entry[of init_bridge "''navigate''" JNull] c0
          no_peer_rejects_without_entry[of ?s "''navigate''" JNull] c1
    by simp
qed

lemma sent_ids_step: "\<exists>zs. sent_ids (step s e) = sent_ids s @ zs"
proof (cases e)
  case (Call a p)
  then show ?thesis
    by (cases "peer_connected s")
       (auto simp: sendToExtension_def sent_ids_def peer_connected_def Let_def split: option.splits)
next
  case (Message m)
  then show ?thesis
    by (auto simp: onMessage_def sent_ids_def Let_def split: message.splits option.splits)
next
  case (TimerFires h)
  then show ?thesis by (auto simp: onTimeout_def sent_ids_def split: option.splits)
qed (auto simp: onConnection_def onClose_def sent_ids_def Let_def)

lemma sent_ids_run: "\<exists>zs. sent_ids (run s es) = sent_ids s @ zs"
proof (induction es arbitrary: s)
  case Nil
  then show ?case by (simp add: run_def)
next
  case (Cons e es)
  obtain z1 where z1: "sent_ids (step s e) = sent_ids s @ z1" using sent_ids_step by blast
  obtain z2 where "sent_ids (run (step s e) es) = sent_ids (step s e) @ z2"
    using Cons.IH by blast
  with z1 show ?case by (simp add: run_def)
qed

lemma inv_sent_distinct: "bridge_inv s \<Longrightarrow> distinct (map fst (sent_ids s))"
  by (simp add: invD_sent distinct_map inj_on_def mk_id_inj)

lemma pending_timer_names_action:
  assumes inv: "bridge_inv s" and pi: "map_of (pendingRequests s) i = Some h"
    and sn: "(i, action) \<in> set (sent_ids s)"
  shows "\<exists>t. map_of (timers s) h = Some t \<and> timer_id t = i \<and> timer_action t = action
            \<and> timer_delay t = 30000"
proof -
  obtain t where t: "map_of (timers s) h = Some t" "timer_id t = i"
    using invD_pending[OF inv pi] by blast
  note d = invD_timer[OF inv t(1)]
  then have "(i, timer_action t) \<in> set (sent_ids s)" using t(2) by simp
  with sn inv_sent_distinct[OF inv] have "timer_action t = action"
    by (meson eq_key_imp_eq_value)
  with t d show ?thesis by simp
qed

text \<open>
  A Response that reports failure with an empty \<open>error\<close> string does not reject the
  caller with that string: \<open>message.payload.error || 'Unknown error'\<close> takes the fallback.
\<close>

theorem response_error_message_counterexample:
  "settled (run init_bridge
      [Connection 0, Call ''click'' JNull,
       Message (Response ''req_1'' (Some \<lparr>success = False, data = JUndefined, error = Some ''''\<rparr>))])
     = [(''req_1'', Rejected (Error ''Unknown error''))]
   \<and> Error ''Unknown error'' \<noteq> Error ''''"
  by (simp add: bridge_eval)

lemma send_keeps_settled:
  "settled (snd (sendToExtension s action params)) = settled s"
  "removed (snd (sendToExtension s action params)) = removed s"
  by (simp_all add: sendToExtension_def Let_def split: option.splits)

lemma gone_step:
  assumes inv: "bridge_inv s" and g: "i \<in> set (map fst (removed s))"
  shows "filter (\<lambda>e. fst e = i) (settled (step s e)) = filter (\<lambda>e. fst e = i) (settled s)
       \<and> i \<in> set (map fst (removed (step s e)))"
proof -
  have np: "map_of (pendingRequests s) i = None" by (rule invD_removed_none[OF inv g])
  show ?thesis
  proof (cases e)
    case (Call a p)
    with g show ?thesis by (simp add: send_keeps_settled)
  next
    case (Message m)
    show ?thesis
    proof (cases m)
      case (Response j p)
      show ?thesis
      proof (cases "map_of (pendingRequests s) j")
        case None
        with g Message Response show ?thesis by (simp add: onMessage_def)
      next
        case (Some k)
        with np have "j \<noteq> i" by auto
        with g Some Message Response show ?thesis
          by (cases p) (simp_all add: onMessage_def Let_def)
      qed
    qed (use g Message in \<open>simp_all add: onMessage_def\<close>)
  next
    case (TimerFires k)
    show ?thesis
    proof (cases "map_of (timers s) k")
      case None
      with g TimerFires show ?thesis by (simp add: onTimeout_def)
    next
      case (Some t)
      from invD_timer[OF inv Some] np have "timer_id t \<noteq> i" by auto
      with g Some TimerFires show ?thesis by (simp add: onTimeout_def)
    qed
  qed (use g in \<open>simp_all add: onConnection_def onClose_def Let_def\<close>)
qed

lemma gone_run:
  assumes "bridge_inv s" and "i \<in> set (map fst (removed s))"
  shows "filter (\<lambda>e. fst e = i) (settled (run s es)) = filter (\<lambda>e. fst e = i) (settled s)
       \<and> map_of (pendingRequests (run s es)) i = None"
  using assms
proof (induction es arbitrary: s)
  case Nil
  then show ?case by (simp add: run_def invD_removed_none)
next
  case (Cons e es)
  note st = gone_step[OF Cons.prems, of e]
  from Cons.IH[OF inv_step[OF Cons.prems(1)] conjunct2[OF st]] st
  show ?case by (simp add: run_def)
qed

lemma keep_step:
  assumes inv: "bridge_inv s" and p: "map_of (pendingRequests s) i = Some h"
    and nr: "\<And>pl. e \<noteq> Message (Response i pl)" and nt: "e \<noteq> TimerFires h"
  shows "map_of (pendingRequests (step s e)) i = Some h"
proof (cases e)
  case (Call a q)
  show ?thesis
  proof (cases "peer_connected s")
    case False
    with p Call show ?thesis by (simp add: sendToExtension_not_connected)
  next
    case True
    then obtain ws where ws: "extensionClient s = Some ws" "readyState s ws = OPEN"
      by (auto simp: peer_connected_def split: option.splits)
    from fresh_not_pending[OF inv] p have "mk_id (Suc (requestIdCounter s)) \<noteq> i" by auto
    with p Call show ?thesis by (simp add: sendToExtension_connected[OF ws] update_conv')
  qed
next
  case (Message m)
  show ?thesis
  proof (cases m)
    case (Response j pl)
    with nr Message have ji: "j \<noteq> i" by auto
    show ?thesis
    proof (cases "map_of (pendingRequests s) j")
      case None
      with p Message Response show ?thesis by (simp add: onMessage_def)
    next
      case (Some k)
      with p ji Message Response show ?thesis
        by (cases pl) (simp_all add: onMessage_def Let_def delete_conv')
    qed
  qed (use p Message in \<open>simp_all add: onMessage_def\<close>)
next
  case (TimerFires k)
  with nt have kh: "k \<noteq> h" by simp
  show ?thesis
  proof (cases "map_of (timers s) k")
    case None
    with p TimerFires show ?thesis by (simp add: onTimeout_def)
  next
    case (Some t)
    from invD_timer[OF inv Some] p kh have "timer_id t \<noteq> i" by auto
    with p Some TimerFires show ?thesis by (simp add: onTimeout_def delete_conv')
  qed
qed (use p in \<open>simp_all add: onConnection_def onClose_def Let_def\<close>)

lemma three_ways_skip:
  assumes "\<And>pl. e \<noteq> Message (Response i pl)" and "e \<noteq> TimerFires h"
  shows "three_ways i action h (e # es) = three_ways i action h es"
proof (cases e)
  case (Message m)
  show ?thesis
  proof (cases m)
    case (Response j pl)
    with assms(1) Message have "j \<noteq> i" by auto
    with Message Response show ?thesis by (cases pl) simp_all
  qed (use Message in simp_all)
next
  case (TimerFires k)
  with assms(2) show ?thesis by simp
qed simp_all

lemma three_ways_fires: "TimerFires h \<in> set es \<Longrightarrow> three_ways i action h es \<noteq> None"
proof (induction es)
  case Nil
  then show ?case by simp
next
  case (Cons e es)
  show ?case
  proof (cases "(\<forall>pl. e \<noteq> Message (Response i pl)) \<and> e \<noteq> TimerFires h")
    case True
    with Cons show ?thesis by (auto simp: three_ways_skip)
  next
    case False
    then consider pl where "e = Message (Response i pl)" | "e = TimerFires h" by blast
    then show ?thesis
    proof cases
      case 1
      with Cons show ?thesis by (cases pl) auto
    next
      case 2
      then show ?thesis by simp
    qed
  qed
qed

lemma call_fate:
  assumes "bridge_inv s" and "map_of (pendingRequests s) i = Some h"
    and "(i, action) \<in> set (sent_ids s)"
    and "Message (Response i None) \<notin> set es"
  shows "filter (\<lambda>e. fst e = i) (settled (run s es)) =
           (case three_ways i action h es of None \<Rightarrow> [] | Some x \<Rightarrow> [(i, x)])
       \<and> (three_ways i action h es = None \<longrightarrow>
            map_of (pendingRequests (run s es)) i = Some h \<and>
            map_of (timers (run s es)) h =
              Some \<lparr>timer_id = i, timer_action = action, timer_delay = 30000\<rparr>)
       \<and> (three_ways i action h es \<noteq> None \<longrightarrow> map_of (pendingRequests (run s es)) i = None)"
  using assms
proof (induction es arbitrary: s)
  case Nil
  have nr: "i \<notin> set (map fst (removed s))"
    using invD_removed_none[OF Nil.prems(1), of i] Nil.prems(2) by auto
  then have ns: "i \<notin> fst ` set (settled s)"
    using invD_settled[OF Nil.prems(1)] by auto
  then have f: "filter (\<lambda>e. fst e = i) (settled s) = []"
    by (auto simp: filter_empty_conv)
  obtain t where t: "map_of (timers s) h = Some t" "timer_id t = i"
        "timer_action t = action" "timer_delay t = 30000"
    using pending_timer_names_action[OF Nil.prems(1,2,3)] by blast
  then have "map_of (timers s) h = Some \<lparr>timer_id = i, timer_action = action, timer_delay = 30000\<rparr>"
    by simp
  with f Nil.prems(2) show ?case by (simp add: run_def)
next
  case (Cons e es)
  note inv = Cons.prems(1) and p = Cons.prems(2) and sn = Cons.prems(3)
  have nl: "Message (Response i None) \<notin> set es" and ne: "e \<noteq> Message (Response i None)"
    using Cons.prems(4) by auto
  have nr: "i \<notin> set (map fst (removed s))"
    using invD_removed_none[OF inv, of i] p by auto
  then have "i \<notin> fst ` set (settled s)"
    using invD_settled[OF inv] by auto
  then have f: "filter (\<lambda>e. fst e = i) (settled s) = []"
    by (auto simp: filter_empty_conv)
  have r: "run s (e # es) = run (step s e) es" by (simp add: run_def)
  note inv' = inv_step[OF inv, of e]
  show ?case
  proof (cases "(\<forall>pl. e \<noteq> Message (Response i pl)) \<and> e \<noteq> TimerFires h")
    case True
    then have a: "\<And>pl. e \<noteq> Message (Response i pl)" and b: "e \<noteq> TimerFires h" by auto
    have p': "map_of (pendingRequests (step s e)) i = Some h"
      by (rule keep_step[OF inv p a b])
    obtain zs where "sent_ids (step s e) = sent_ids s @ zs" using sent_ids_step by blast
    with sn have sn': "(i, action) \<in> set (sent_ids (step s e))" by simp
    from Cons.IH[OF inv' p' sn' nl] show ?thesis
      unfolding r three_ways_skip[of e i h, OF a b] .
  next
    case False
    then consider pl where "e = Message (Response i (Some pl))" | "e = TimerFires h"
      using ne by (metis option.exhaust)
    then show ?thesis
    proof cases
      case 1
      define x where "x = (if success pl then Resolved (data pl)
                 else Rejected (Error (case error pl of
                                         None \<Rightarrow> ''Unknown error''
                                       | Some m \<Rightarrow> if m = [] then ''Unknown error'' else m)))"
      have tw: "three_ways i action h (e # es) = Some x" by (simp add: 1 x_def)
      have st: "settled (step s e) = settled s @ [(i, x)]"
        using p by (simp add: 1 onMessage_def Let_def x_def error_or_unknown_def)
      have rm: "i \<in> set (map fst (removed (step s e)))"
        using p by (simp add: 1 onMessage_def Let_def)
      from gone_run[OF inv' rm, of es] show ?thesis
        unfolding r tw st by (simp add: f)
    next
      case 2
      obtain t where t: "map_of (timers s) h = Some t" "timer_id t = i"
        "timer_action t = action" "timer_delay t = 30000"
        using pending_timer_names_action[OF inv p sn] by blast
      define x where "x = Rejected (Error (''Request timeout: '' @ action))"
      have tw: "three_ways i action h (e # es) = Some x" by (simp add: 2 x_def)
      have st: "settled (step s e) = settled s @ [(i, x)]"
        using t by (simp add: 2 onTimeout_def x_def)
      have rm: "i \<in> set (map fst (removed (step s e)))"
        using t p by (simp add: 2 onTimeout_def)
      from gone_run[OF inv' rm, of es] show ?thesis
        unfolding r tw st by (simp add: f)
    qed
  qed
qed

text \<open>
  A Response with the call's id and no payload: the handler deletes the entry and clears
  the timer, then fails on \<open>message.payload.success\<close>; the caller is never settled,
  neither by the timer nor by a later Response.
\<close>

lemma response_without_payload_hangs:
  "settled (run init_bridge
      [Connection 0, Call ''click'' JNull, Message (Response ''req_1'' None), TimerFires 0,
       Message (Response ''req_1'' (Some \<lparr>success = True, data = JNull, error = None\<rparr>))]) = []
   \<and> pendingRequests (run init_bridge
      [Connection 0, Call ''click'' JNull, Message (Response ''req_1'' None)]) = []
   \<and> timers (run init_bridge
      [Connection 0, Call ''click'' JNull, Message (Response ''req_1'' None)]) = []"
  by (simp add: bridge_eval)

text \<open>
  Claim C3, as amended. A call made while a peer is connected gets an id, a pending entry,
  a timer armed with delay 30000 that carries the call's action, and its Request is
  written to the peer. Whatever events follow, as long as no Response with the call's id
  and without a payload is among them, the caller is settled exactly as \<open>three_ways\<close>
  says: not at all while none of the three has happened, the entry then being pending with
  its timer armed; and exactly once afterwards, by the first of them, the entry then being
  gone: resolved with \<open>payload.data\<close>, rejected with \<open>payload.error\<close> or
  \<open>Unknown error\<close>, or rejected with \<open>Request timeout: \<close> and the action.
  Once the call's timer has fired, the call has been settled.
\<close>

theorem call_settles_three_ways:
  assumes c: "peer_connected (run init_bridge es0)"
    and call: "sendToExtension (run init_bridge es0) action params = (r, s1)"
  shows "\<exists>i h. r = Inr i \<and> map_of (pendingRequests s1) i = Some h
     \<and> map_of (timers s1) h = Some \<lparr>timer_id = i, timer_action = action, timer_delay = 30000\<rparr>
     \<and> (\<exists>ws. sent s1 = sent (run init_bridge es0) @
                [(ws, \<lparr>req_id = i, req_action = action, req_params = params\<rparr>)])
     \<and> (\<forall>es. Message (Response i None) \<notin> set es \<longrightarrow>
          filter (\<lambda>e. fst e = i) (settled (run s1 es)) =
            (case three_ways i action h es of None \<Rightarrow> [] | Some x \<Rightarrow> [(i, x)])
          \<and> (three_ways i action h es = None \<longrightarrow>
               map_of (pendingRequests (run s1 es)) i = Some h \<and>
               map_of (timers (run s1 es)) h =
                 Some \<lparr>timer_id = i, timer_action = action, timer_delay = 30000\<rparr>)
          \<and> (three_ways i action h es \<noteq> None \<longrightarrow>
               map_of (pendingRequests (run s1 es)) i = None)
          \<and> (TimerFires h \<in> set es \<longrightarrow>
               (\<exists>x. filter (\<lambda>e. fst e = i) (settled (run s1 es)) = [(i, x)])))"
proof -
  define s where "s = run init_bridge es0"
  have inv: "bridge_inv s" unfolding s_def by (rule inv_run[OF inv_init])
  from c obtain ws where ws: "extensionClient s = Some ws" "readyState s ws = OPEN"
    by (auto simp: peer_connected_def s_def split: option.splits)
  define i where "i = mk_id (Suc (requestIdCounter s))"
  define h where "h = nextTimer s"
  note sc = sendToExtension_connected[OF ws, of action params]
  from call have r: "r = Inr i" and s1: "s1 = snd (sendToExtension s action params)"
    by (simp_all add: sc s_def[symmetric] i_def)
  have inv1: "bridge_inv s1" unfolding s1 by (rule inv_send[OF inv])
  have p1: "map_of (pendingRequests s1) i = Some h"
    by (simp add: s1 sc update_conv' i_def h_def)
  have t1: "map_of (timers s1) h =
      Some \<lparr>timer_id = i, timer_action = action, timer_delay = 30000\<rparr>"
    by (simp add: s1 sc update_conv' i_def h_def)
  have sn1: "(i, action) \<in> set (sent_ids s1)"
    by (simp add: s1 sc sent_ids_def i_def)
  have w1: "sent s1 = sent s @ [(ws, \<lparr>req_id = i, req_action = action, req_params = params\<rparr>)]"
    by (simp add: s1 sc i_def)
  have later: "filter (\<lambda>e. fst e = i) (settled (run s1 es)) =
            (case three_ways i action h es of None \<Rightarrow> [] | Some x \<Rightarrow> [(i, x)])
          \<and> (three_ways i action h es = None \<longrightarrow>
               map_of (pendingRequests (run s1 es)) i = Some h \<and>
               map_of (timers (run s1 es)) h =
                 Some \<lparr>timer_id = i, timer_action = action, timer_delay = 30000\<rparr>)
          \<and> (three_ways i action h es \<noteq> None \<longrightarrow>
               map_of (pendingRequests (run s1 es)) i = None)
          \<and> (TimerFires h \<in> set es \<longrightarrow>
               (\<exists>x. filter (\<lambda>e. fst e = i) (settled (run s1 es)) = [(i, x)]))"
    if "Message (Response i None) \<notin> set es" for es
  proof -
    note f = call_fate[OF inv1 p1 sn1 that]
    have "\<exists>x. filter (\<lambda>e. fst e = i) (settled (run s1 es)) = [(i, x)]"
      if "TimerFires h \<in> set es"
      using three_ways_fires[OF that, of i action] f by auto
    with f show ?thesis by blast
  qed
  from r p1 t1 w1 later show ?thesis unfolding s_def by blast
qed


theorem call_settles_three_ways_witness:
  "filter (\<lambda>e. fst e = ''req_1'')
     (settled (run (snd (sendToExtension (run init_bridge [Connection 0]) ''click'' JNull))
        [Message (Response ''req_1''
           (Some \<lparr>success = False, data = JUndefined, error = Some ''boom''\<rparr>)),
         TimerFires 0])) =
     [(''req_1'', Rejected (Error ''boom''))]
   \<and> filter (\<lambda>e. fst e = ''req_1'')
     (settled (run (snd (sendToExtension (run init_bridge [Connection 0]) ''click'' JNull))
        [TimerFires 0,
         Message (Response ''req_1''
           (Some \<lparr>success = True, data = JStr ''done'', error = None\<rparr>))])) =
     [(''req_1'', Rejected (Error ''Request timeout: click''))]
   \<and> filter (\<lambda>e. fst e = ''req_1'')
     (settled (run (snd (sendToExtension (run init_bridge [Connection 0]) ''click'' JNull))
        [Call ''reload'' JNull,
         Message (Response ''req_1''
           (Some \<lparr>success = True, data = JStr ''done'', error = None\<rparr>))])) =
     [(''req_1'', Resolved (JStr ''done''))]
   \<and> map_of (pendingRequests
         (run (snd (sendToExtension (run init_bridge [Connection 0]) ''click'' JNull))
            [Call ''reload'' JNull])) ''req_1'' = Some 0"
proof -
  let ?s = "run init_bridge [Connection 0]"
  let ?s1 = "snd (sendToExtension ?s ''click'' JNull)"
  let ?boom = "\<lparr>success = False, data = JUndefined, error = Some ''boom''\<rparr>"
  let ?done = "\<lparr>success = True, data = JStr ''done'', error = None\<rparr>"
  have c: "peer_connected ?s" by (simp add: bridge_eval)
  have call: "sendToExtension ?s ''click'' JNull = (Inr ''req_1'', ?s1)"
    by (simp add: bridge_eval)
  have p: "map_of (pendingRequests ?s1) ''req_1'' = Some 0"
    by (simp add: bridge_eval)
  from call_settles_three_ways[OF c call] obtain i h where
    i: "Inr ''req_1'' = (Inr i :: thrown + string)" and h: "map_of (pendingRequests ?s1) i = Some h"
    and all: "\<forall>es. Message (Response i None) \<notin> set es \<longrightarrow>
          filter (\<lambda>e. fst e = i) (settled (run ?s1 es)) =
            (case three_ways i ''click'' h es of None \<Rightarrow> [] | Some x \<Rightarrow> [(i, x)])
          \<and> (three_ways i ''click'' h es = None \<longrightarrow>
               map_of (pendingRequests (run ?s1 es)) i = Some h \<and>
               map_of (timers (run ?s1 es)) h =
                 Some \<lparr>timer_id = i, timer_action = ''click'', timer_delay = 30000\<rparr>)
          \<and> (three_ways i ''click'' h es \<noteq> None \<longrightarrow>
               map_of (pendingRequests (run ?s1 es)) i = None)
          \<and> (TimerFires h \<in> set es \<longrightarrow>
               (\<exists>x. filter (\<lambda>e. fst e = i) (settled (run ?s1 es)) = [(i, x)]))"
    by blast
  from i have i1: "i = ''req_1''" by simp
  from h p have h0: "h = 0" unfolding i1 by simp
  note a = all[unfolded i1 h0, THEN spec, THEN mp]
  have e1: "Message (Response ''req_1'' None) \<notin>
              set [Message (Response ''req_1'' (Some ?boom)), TimerFires 0]" by simp
  have e2: "Message (Response ''req_1'' None) \<notin>
              set [TimerFires 0, Message (Response ''req_1'' (Some ?done))]" by simp
  have e3: "Message (Response ''req_1'' None) \<notin>
              set [Call ''reload'' JNull, Message (Response ''req_1'' (Some ?done))]" by simp
  have e4: "Message (Response ''req_1'' None) \<notin> set [Call ''reload'' JNull]" by simp
  have t1: "three_ways ''req_1'' ''click'' 0 [Message (Response ''req_1'' (Some ?boom)), TimerFires 0]
              = Some (Rejected (Error ''boom''))" by simp
  have t2: "three_ways ''req_1'' ''click'' 0 [TimerFires 0, Message (Response ''req_1'' (Some ?done))]
              = Some (Rejected (Error ''Request timeout: click''))" by simp
  have t3: "three_ways ''req_1'' ''click'' 0
              [Call ''reload'' JNull, Message (Response ''req_1'' (Some ?done))]
              = Some (Resolved (JStr ''done''))" by simp
  have t4: "three_ways ''req_1'' ''click'' 0 [Call ''reload'' JNull] = None" by simp
  note r1 = a[OF e1, THEN conjunct1, unfolded t1 option.case]
  note r2 = a[OF e2, THEN conjunct1, unfolded t2 option.case]
  note r3 = a[OF e3, THEN conjunct1, unfolded t3 option.case]
  note r4 = a[OF e4, THEN conjunct2, THEN conjunct1, THEN mp, OF t4, THEN conjunct1]
  from r1 r2 r3 r4 show ?thesis by (intro conjI)
qed

section \<open>Session transport: lifecycle and command forwarding\<close>

lemma attach_when_attached: "attached t \<Longrightarrow> attach h t hlog = (Inr (), t, hlog)"
  by (simp add: attach_def)

lemma attach_accepted:
  assumes "\<not> attached t" and "h hlog (DebuggerAttach (tabId t) ''1.3'') = Inr v"
  shows "attach h t hlog =
           (Inr (), t\<lparr>attached := True\<rparr>,
            hlog @ [DebuggerAttach (tabId t) ''1.3'', OnEventAddListener (tabId t),
                   OnDetachAddListener (tabId t)])"
  using assms by (simp add: attach_def)

lemma detach_never_raises: "fst (detach h t hlog) = Inr ()"
  by (simp add: detach_def Let_def split: sum.splits)

lemma detach_leaves_detached: "\<not> attached (fst (snd (detach h t hlog)))"
  by (simp add: detach_def Let_def split: sum.splits)

text \<open>
  Claim C8. Calling \<open>attach\<close> twice in a row on a detached session whose host grants the
  attach leaves the session attached and issues exactly one host attach (the second call
  adds nothing to the host log and changes nothing); a second \<open>attach\<close> on any attached
  session is a no-op. \<open>detach\<close> on a detached session changes neither the session nor
  the host log and raises nothing, and \<open>detach\<close> raises nothing whatever the host
  answers, including a host that rejects the detach as already detached.
\<close>

theorem attach_idempotent_detach_noop:
  "(\<not> attached t \<and> h hlog (DebuggerAttach (tabId t) ''1.3'') = Inr v \<longrightarrow>
      (case attach h t hlog of (r1, t1, log1) \<Rightarrow>
         (case attach h t1 log1 of (r2, t2, log2) \<Rightarrow>
            r1 = Inr () \<and> r2 = Inr () \<and> attached t2 \<and> t2 = t1 \<and> log2 = log1 \<and>
            log2 = hlog @ [DebuggerAttach (tabId t) ''1.3'', OnEventAddListener (tabId t),
                          OnDetachAddListener (tabId t)] \<and>
            length (filter (\<lambda>c. c = DebuggerAttach (tabId t) ''1.3'') log2) =
              Suc (length (filter (\<lambda>c. c = DebuggerAttach (tabId t) ''1.3'') hlog)))))
   \<and> (attached t \<longrightarrow> attach h t hlog = (Inr (), t, hlog))
   \<and> (\<not> attached t \<longrightarrow> detach h t hlog = (Inr (), t, hlog))
   \<and> fst (detach h t hlog) = Inr ()
   \<and> \<not> attached (fst (snd (detach h t hlog)))"
  by (simp add: attach_def detach_def Let_def split: sum.splits)

theorem attach_idempotent_detach_noop_witness:
  "(case attach (\<lambda>hlog c. Inr JUndefined) (new_transport 7) [] of (r1, t1, log1) \<Rightarrow>
      (case attach (\<lambda>hlog c. Inr JUndefined) t1 log1 of (r2, t2, log2) \<Rightarrow>
         r1 = Inr () \<and> r2 = Inr () \<and> attached t2 \<and>
         log2 = [DebuggerAttach 7 ''1.3'', OnEventAddListener 7, OnDetachAddListener 7]))
   \<and> attach (\<lambda>hlog c. Inl (Error ''Another debugger is already attached to the tab with id: 7.''))
        ((new_transport 7)\<lparr>attached := True\<rparr>) [] =
       (Inr (), (new_transport 7)\<lparr>attached := True\<rparr>, [])
   \<and> detach (\<lambda>hlog c. Inl (Error ''Debugger is not attached to the tab with id: 7.''))
        (new_transport 7) [] = (Inr (), new_transport 7, [])
   \<and> fst (detach (\<lambda>hlog c. Inl (Error ''Debugger is not attached to the tab with id: 7.''))
        ((new_transport 7)\<lparr>attached := True\<rparr>) []) = Inr ()"
proof -
  define ok :: host where "ok = (\<lambda>hlog c. Inr JUndefined)"
  define busy :: host where
    "busy = (\<lambda>hlog c. Inl (Error ''Another debugger is already attached to the tab with id: 7.''))"
  define gone :: host where
    "gone = (\<lambda>hlog c. Inl (Error ''Debugger is not attached to the tab with id: 7.''))"
  define t0 where "t0 = new_transport 7"
  define t1 where "t1 = (new_transport 7)\<lparr>attached := True\<rparr>"
  have d: "\<not> attached t0" "attached t1" "tabId t0 = 7"
    by (simp_all add: t0_def t1_def new_transport_def)
  have g: "ok [] (DebuggerAttach (tabId t0) ''1.3'') = Inr JUndefined" by (simp add: ok_def)
  note i1 = attach_idempotent_detach_noop[where t = t0 and h = ok and hlog = "[]" and v = JUndefined]
  note a = i1[THEN conjunct1, THEN mp, OF conjI[OF d(1) g]]
  note i2 = attach_idempotent_detach_noop[where t = t1 and h = busy and hlog = "[]"]
  note b = i2[THEN conjunct2, THEN conjunct1, THEN mp, OF d(2)]
  note i3 = attach_idempotent_detach_noop[where t = t0 and h = gone and hlog = "[]"]
  note c = i3[THEN conjunct2, THEN conjunct2, THEN conjunct1, THEN mp, OF d(1)]
  note i4 = attach_idempotent_detach_noop[where t = t1 and h = gone and hlog = "[]"]
  note e = i4[THEN conjunct2, THEN conjunct2, THEN conjunct2, THEN conjunct1]
  from a b c e show ?thesis
    unfolding ok_def busy_def gone_def t0_def t1_def
    by (simp add: new_transport_def split: prod.splits)
qed

text \<open>
  Claim C9. On a session that is not attached, \<open>send\<close> fails with the attachment error
  and forwards nothing to the host; this includes the session left by a host-initiated
  detach of its own tab. On an attached session \<open>send\<close> forwards exactly one command
  to the host and returns the host's outcome, result or error, as it is.
\<close>

theorem send_requires_attached:
  "(\<not> attached t \<longrightarrow> send h t hlog method params = (Inl (Error ''Debugger not attached''), hlog))
   \<and> send h (handleDetach t (tabId t) reason) hlog method params =
       (Inl (Error ''Debugger not attached''), hlog)
   \<and> (attached t \<longrightarrow>
        send h t hlog method params =
          (h hlog (DebuggerSendCommand (tabId t) method params),
           hlog @ [DebuggerSendCommand (tabId t) method params]))"
  by (simp add: send_def handleDetach_def)

theorem send_requires_attached_witness:
  "send (\<lambda>hlog c. Inr (JStr ''ok'')) (new_transport 7) [] ''Page.reload'' NoParams =
     (Inl (Error ''Debugger not attached''), [])
   \<and> send (\<lambda>hlog c. Inr (JStr ''ok'')) ((new_transport 7)\<lparr>attached := True\<rparr>) []
        ''Page.reload'' NoParams =
     (Inr (JStr ''ok''), [DebuggerSendCommand 7 ''Page.reload'' NoParams])"
  using send_requires_attached
          [of "new_transport 7" "\<lambda>hlog c. Inr (JStr ''ok'')" "[]" "''Page.reload''" NoParams]
        send_requires_attached
          [of "(new_transport 7)\<lparr>attached := True\<rparr>" "\<lambda>hlog c. Inr (JStr ''ok'')" "[]"
              "''Page.reload''" NoParams]
  by (simp add: new_transport_def)

section \<open>Console capture: the cap and the drain\<close>

lemma read_drains:
  "fst (getConsoleLogs_script w) = (case agentsCCConsoleLogs w of None \<Rightarrow> [] | Some logs \<Rightarrow> logs)
   \<and> agentsCCConsoleLogs (snd (getConsoleLogs_script w)) = Some []
   \<and> agentsCCMaxLogs (snd (getConsoleLogs_script w)) =
       (case agentsCCConsoleLogs w of None \<Rightarrow> 1000 | Some _ \<Rightarrow> agentsCCMaxLogs w)"
  by (simp add: getConsoleLogs_script_def Let_def split: option.splits)

lemma console_call_bounded:
  assumes "buffer_length w \<le> agentsCCMaxLogs w"
  shows "buffer_length (console_call w ty txt now) \<le> agentsCCMaxLogs (console_call w ty txt now)"
  using assms by (auto simp: console_call_def buffer_length_def Let_def split: option.splits)

lemma console_call_evicts_oldest:
  assumes "agentsCCConsoleLogs w = Some (old # rest)" and "length (old # rest) = agentsCCMaxLogs w"
  shows "agentsCCConsoleLogs (console_call w ty txt now) =
           Some (rest @ [\<lparr>log_type = ty, log_text = txt, log_timestamp = now,
                           log_url = None, log_lineNumber = None\<rparr>])"
  using assms by (simp add: console_call_def Let_def)

lemma window_error_grows:
  "agentsCCConsoleLogs w = Some logs \<Longrightarrow>
     buffer_length (window_error w msg filename lineno now) = Suc (length logs)"
  by (simp add: window_error_def buffer_length_def)

lemma window_errors_unbounded:
  "agentsCCConsoleLogs w = Some logs \<Longrightarrow>
     buffer_length (foldl page_step w (replicate n (WindowError msg filename lineno now))) =
       length logs + n"
proof (induction n arbitrary: w logs)
  case 0
  then show ?case by (simp add: buffer_length_def)
next
  case (Suc n)
  have "agentsCCConsoleLogs (window_error w msg filename lineno now) =
          Some (logs @ [\<lparr>log_type = ''error'', log_text = msg, log_timestamp = now,
                          log_url = Some filename, log_lineNumber = Some lineno\<rparr>])"
    using Suc.prems by (simp add: window_error_def)
  from Suc.IH[OF this] show ?case by simp
qed

text \<open>
  Claim C4, at the input where the code departs from it. After the first read has
  installed the collector, 1001 uncaught errors on the page leave 1001 entries in the
  buffer: the \<open>error\<close> listener pushes without the length check that the console
  replacements make.
\<close>

theorem console_buffer_exceeds_cap:
  "buffer_length
     (foldl page_step (snd (getConsoleLogs_script fresh_window))
        (replicate 1001 (WindowError ''boom'' ''https://example.com/app.js'' 1 0))) = 1001
   \<and> agentsCCMaxLogs
     (foldl page_step (snd (getConsoleLogs_script fresh_window))
        (replicate 1001 (WindowError ''boom'' ''https://example.com/app.js'' 1 0))) = 1000"
proof -
  have a: "agentsCCConsoleLogs (snd (getConsoleLogs_script fresh_window)) = Some []"
    by (simp add: read_drains)
  have m: "agentsCCMaxLogs (foldl page_step w (replicate n (WindowError a b c d))) = agentsCCMaxLogs w"
    for w n a b c d
    by (induction n arbitrary: w) (simp_all add: window_error_def split: option.splits)
  have "agentsCCMaxLogs (snd (getConsoleLogs_script fresh_window)) = 1000"
    by (simp add: read_drains fresh_window_def)
  with window_errors_unbounded[OF a, of 1001] m show ?thesis by simp
qed

section \<open>Page operations: evaluate, clickAt, clickElement\<close>

lemma splice_clean:
  "\<forall>c \<in> set s. c \<noteq> CHR 0x27 \<and> c \<noteq> CHR 0x5C \<and> c \<noteq> CHR 0x0A \<and> c \<noteq> CHR 0x0D \<Longrightarrow>
     splice_sq s = Spliced s"
  by (induction s) simp_all

lemma after_quote_not_spliced: "after_quote cs \<noteq> Spliced m"
  by (simp add: after_quote_def split: list.splits)

lemma splice_text: "splice_sq s = Spliced m \<Longrightarrow> m = s"
proof (induction s arbitrary: m)
  case Nil
  then show ?case by simp
next
  case (Cons c cs)
  from Cons.prems have q: "c \<noteq> CHR 0x27"
    using after_quote_not_spliced[of cs m] by (cases "c = CHR 0x27") simp_all
  with Cons.prems have r: "c \<noteq> CHR 0x5C" "c \<noteq> CHR 0x0A" "c \<noteq> CHR 0x0D"
    by (auto split: if_splits)
  with q Cons.prems obtain m' where "splice_sq cs = Spliced m'" "m = c # m'"
    by (cases "splice_sq cs") simp_all
  with Cons.IH show ?case by simp
qed

lemma send_attached:
  "attached t \<Longrightarrow>
     send h t hlog method params =
       (h hlog (DebuggerSendCommand (tabId t) method params),
        hlog @ [DebuggerSendCommand (tabId t) method params])"
  by (simp add: send_def)

lemma clickAt_accepted:
  assumes "attached t"
    and "h hlog (DebuggerSendCommand (tabId t) dispatchMouseEvent (mouseMoved x y)) = Inr v1"
    and "h (hlog @ take 1 (click_events (tabId t) x y (JStr ''left'') (JNum 1)))
           (DebuggerSendCommand (tabId t) dispatchMouseEvent
              (mousePressed x y (JStr ''left'') (JNum 1))) = Inr v2"
    and "h (hlog @ take 2 (click_events (tabId t) x y (JStr ''left'') (JNum 1)))
           (DebuggerSendCommand (tabId t) dispatchMouseEvent
              (mouseReleased x y (JStr ''left'') (JNum 1))) = Inr v3"
  shows "clickAt h t hlog x y JUndefined JUndefined =
           (Inr (), hlog @ click_events (tabId t) x y (JStr ''left'') (JNum 1))"
  using assms by (simp add: clickAt_def send_attached click_events_def Let_def)

lemma clickAt_trace:
  assumes "attached t"
  shows "\<exists>k \<le> 3. snd (clickAt h t hlog x y b cc) =
           hlog @ take k (click_events (tabId t) x y
                            (if truthy b then b else JStr ''left'')
                            (if truthy cc then cc else JNum 1))
         \<and> (fst (clickAt h t hlog x y b cc) = Inr () \<longrightarrow> k = 3)"
proof -
  define bt where "bt = (if truthy b then b else JStr ''left'')"
  define ct where "ct = (if truthy cc then cc else JNum 1)"
  define e1 where "e1 = DebuggerSendCommand (tabId t) dispatchMouseEvent (mouseMoved x y)"
  define e2 where "e2 = DebuggerSendCommand (tabId t) dispatchMouseEvent (mousePressed x y bt ct)"
  define e3 where "e3 = DebuggerSendCommand (tabId t) dispatchMouseEvent (mouseReleased x y bt ct)"
  have ev: "click_events (tabId t) x y bt ct = [e1, e2, e3]"
    by (simp add: click_events_def e1_def e2_def e3_def)
  have u: "clickAt h t hlog x y b cc =
      (case h hlog e1 of
            Inl e \<Rightarrow> (Inl e, hlog @ [e1])
          | Inr _ \<Rightarrow>
              (case h (hlog @ [e1]) e2 of
                 Inl e \<Rightarrow> (Inl e, hlog @ [e1, e2])
               | Inr _ \<Rightarrow>
                   (case h (hlog @ [e1, e2]) e3 of
                      Inl e \<Rightarrow> (Inl e, hlog @ [e1, e2, e3])
                    | Inr _ \<Rightarrow> (Inr (), hlog @ [e1, e2, e3]))))"
    unfolding clickAt_def Let_def send_attached[OF assms] bt_def[symmetric] ct_def[symmetric]
      e1_def[symmetric] e2_def[symmetric] e3_def[symmetric]
    by (simp split: sum.splits)
  show ?thesis
  proof (cases "h hlog e1")
    case (Inl e)
    with u have "snd (clickAt h t hlog x y b cc) = hlog @ take 1 [e1, e2, e3]"
      and "fst (clickAt h t hlog x y b cc) \<noteq> Inr ()" by simp_all
    then show ?thesis unfolding bt_def[symmetric] ct_def[symmetric] ev
      by (intro exI[of _ 1]) simp
  next
    case a: (Inr v)
    show ?thesis
    proof (cases "h (hlog @ [e1]) e2")
      case (Inl e)
      with u a have "snd (clickAt h t hlog x y b cc) = hlog @ take 2 [e1, e2, e3]"
        and "fst (clickAt h t hlog x y b cc) \<noteq> Inr ()" by simp_all
      then show ?thesis unfolding bt_def[symmetric] ct_def[symmetric] ev
        by (intro exI[of _ 2]) simp
    next
      case b: (Inr w)
      have "snd (clickAt h t hlog x y b cc) = hlog @ take 3 [e1, e2, e3]"
        using u a b by (cases "h (hlog @ [e1, e2]) e3") simp_all
      then show ?thesis unfolding bt_def[symmetric] ct_def[symmetric] ev
        by (intro exI[of _ 3]) simp
    qed
  qed
qed


lemma truthy_field_object: "truthy (field reply k) \<Longrightarrow> \<not> nullish reply"
  by (cases reply) (simp_all add: nullish_def)

lemma evaluate_attached:
  assumes "attached t"
    and "h hlog (DebuggerSendCommand (tabId t) ''Runtime.evaluate'' (Evaluate sc)) = Inr reply"
  shows "evaluate h t hlog sc =
     (if nullish reply then Inl (cannot_read reply ''exceptionDetails'')
      else if truthy (field reply ''exceptionDetails'')
      then Inl (Error (text_of (field (field reply ''exceptionDetails'') ''text'')))
      else if nullish (field reply ''result'')
      then Inl (cannot_read (field reply ''result'') ''value'')
      else Inr (field (field reply ''result'') ''value''),
      hlog @ [DebuggerSendCommand (tabId t) ''Runtime.evaluate'' (Evaluate sc)])"
  unfolding evaluate_def send_attached[OF assms(1)] using assms(2) by simp

lemma evaluate_host_error:
  assumes "attached t"
    and "h hlog (DebuggerSendCommand (tabId t) ''Runtime.evaluate'' (Evaluate sc)) = Inl e"
  shows "evaluate h t hlog sc =
     (Inl e, hlog @ [DebuggerSendCommand (tabId t) ''Runtime.evaluate'' (Evaluate sc)])"
  unfolding evaluate_def send_attached[OF assms(1)] using assms(2) by simp

lemma evaluate_detached:
  "\<not> attached t \<Longrightarrow> evaluate h t hlog sc = (Inl (Error ''Debugger not attached''), hlog)"
  by (simp add: evaluate_def send_def)

lemma reports_reply: "reports (evaluate_reply out) out"
  by (cases out) (simp_all add: reports_def evaluate_reply_def nullish_def)

lemma evaluate_returned:
  assumes "attached t"
    and "h hlog (DebuggerSendCommand (tabId t) ''Runtime.evaluate'' (Evaluate sc)) = Inr reply"
    and "reports reply (Returned v)"
  shows "evaluate h t hlog sc =
     (Inr v, hlog @ [DebuggerSendCommand (tabId t) ''Runtime.evaluate'' (Evaluate sc)])"
proof -
  from assms(3) have r: "\<not> truthy (field reply ''exceptionDetails'')"
    "\<not> nullish (field reply ''result'')" "field (field reply ''result'') ''value'' = v"
    by (simp_all add: reports_def)
  from r(2) have "\<not> nullish reply" by (cases reply) (simp_all add: nullish_def)
  with r show ?thesis
    unfolding evaluate_attached[where h = h and hlog = hlog, OF assms(1,2)] by simp
qed

lemma evaluate_failed:
  assumes "attached t"
    and "h hlog (DebuggerSendCommand (tabId t) ''Runtime.evaluate'' (Evaluate sc)) = Inr reply"
    and "reports reply out" and "out = Threw m \<or> out = SyntaxErr"
  shows "evaluate h t hlog sc =
     (Inl (Error (text_of (field (field reply ''exceptionDetails'') ''text''))),
      hlog @ [DebuggerSendCommand (tabId t) ''Runtime.evaluate'' (Evaluate sc)])"
proof -
  from assms(3,4) have r: "truthy (field reply ''exceptionDetails'')"
    by (auto simp: reports_def)
  with truthy_field_object[OF r] show ?thesis
    unfolding evaluate_attached[where h = h and hlog = hlog, OF assms(1,2)] by simp
qed

lemma clickElement_script_match:
  assumes "splice_sq raw = Spliced m" and "querySelector doc q = Match n"
  shows "clickElement_script doc q raw =
     Returned (JObj [(''x'', JNum (el_left (nodes doc n) + el_width (nodes doc n) / 2)),
                     (''y'', JNum (el_top (nodes doc n) + el_height (nodes doc n) / 2)),
                     (''tagName'', JStr (el_tagName (nodes doc n))),
                     (''text'', JStr (take 100 (el_textContent (nodes doc n))))])"
  using assms by (simp add: clickElement_script_def Let_def)

lemma clickElement_script_no_match:
  assumes "splice_sq raw = Spliced m" and "querySelector doc q = NoMatch"
  shows "clickElement_script doc q raw = Threw (''Element not found: '' @ raw)"
  using assms splice_text[OF assms(1)] by (simp add: clickElement_script_def)

lemma clickElement_clean_match:
  assumes att: "attached t"
    and clean: "splice_sq selector = Spliced m"
    and match: "querySelector doc selector = Match n"
    and reply: "h hlog (DebuggerSendCommand (tabId t) ''Runtime.evaluate''
                  (Evaluate (ClickElementScript selector selector))) = Inr reply"
    and rep: "reports reply (clickElement_script doc selector selector)"
    and cx: "cx = JNum (el_left (nodes doc n) + el_width (nodes doc n) / 2)"
    and cy: "cy = JNum (el_top (nodes doc n) + el_height (nodes doc n) / 2)"
    and l1: "l1 = hlog @ [DebuggerSendCommand (tabId t) ''Runtime.evaluate''
                  (Evaluate (ClickElementScript selector selector))]"
    and a1: "h l1 (DebuggerSendCommand (tabId t) dispatchMouseEvent (mouseMoved cx cy)) = Inr v1"
    and a2: "h (l1 @ take 1 (click_events (tabId t) cx cy (JStr ''left'') (JNum 1)))
               (DebuggerSendCommand (tabId t) dispatchMouseEvent
                  (mousePressed cx cy (JStr ''left'') (JNum 1))) = Inr v2"
    and a3: "h (l1 @ take 2 (click_events (tabId t) cx cy (JStr ''left'') (JNum 1)))
               (DebuggerSendCommand (tabId t) dispatchMouseEvent
                  (mouseReleased cx cy (JStr ''left'') (JNum 1))) = Inr v3"
  shows "clickElement h t hlog selector =
           (Inr (JObj [(''tagName'', JStr (el_tagName (nodes doc n))),
                       (''text'', JStr (take 100 (el_textContent (nodes doc n))))]),
            l1 @ click_events (tabId t) cx cy (JStr ''left'') (JNum 1))"
proof -
  define info where "info = JObj [(''x'', cx), (''y'', cy),
                     (''tagName'', JStr (el_tagName (nodes doc n))),
                     (''text'', JStr (take 100 (el_textContent (nodes doc n))))]"
  have out: "clickElement_script doc selector selector = Returned info"
    unfolding info_def cx cy by (rule clickElement_script_match[OF clean match])
  have ev: "evaluate h t hlog (ClickElementScript selector selector) = (Inr info, l1)"
    unfolding l1
    by (rule evaluate_returned[where h = h and hlog = hlog, OF att reply rep[unfolded out]])
  have f: "field info ''x'' = cx" "field info ''y'' = cy"
    "field info ''tagName'' = JStr (el_tagName (nodes doc n))"
    "field info ''text'' = JStr (take 100 (el_textContent (nodes doc n)))"
    by (simp_all add: info_def)
  have ca: "clickAt h t l1 cx cy JUndefined JUndefined =
           (Inr (), l1 @ click_events (tabId t) cx cy (JStr ''left'') (JNum 1))"
    by (rule clickAt_accepted[where h = h and hlog = l1, OF att a1 a2 a3])
  show ?thesis
    unfolding clickElement_def ev by (simp add: f ca)
qed

lemma clickElement_evaluate_fails:
  assumes "evaluate h t hlog (ClickElementScript selector selector) = (Inl e, l)"
  shows "clickElement h t hlog selector = (Inl e, l)"
  unfolding clickElement_def assms by simp

lemma clickElement_no_match:
  assumes att: "attached t"
    and clean: "splice_sq selector = Spliced m"
    and nomatch: "querySelector doc selector = NoMatch"
    and reply: "h hlog (DebuggerSendCommand (tabId t) ''Runtime.evaluate''
                  (Evaluate (ClickElementScript selector selector))) = Inr reply"
    and rep: "reports reply (clickElement_script doc selector selector)"
  shows "clickElement h t hlog selector =
           (Inl (Error (text_of (field (field reply ''exceptionDetails'') ''text''))),
            hlog @ [DebuggerSendCommand (tabId t) ''Runtime.evaluate''
                      (Evaluate (ClickElementScript selector selector))])"
proof -
  have out: "clickElement_script doc selector selector = Threw (''Element not found: '' @ selector)"
    by (rule clickElement_script_no_match[OF clean nomatch])
  show ?thesis
    by (rule clickElement_evaluate_fails,
        rule evaluate_failed[where h = h and hlog = hlog, OF att reply rep])
       (simp add: out)
qed

lemma quoted_selector_splice: "splice_sq ''input[name='q']'' = SpliceSyntaxError"
  by (simp add: after_quote_def ident_start_def ident_part_def)

lemma search_selector_splice: "splice_sq ''#search'' = Spliced ''#search''"
  by simp

lemma page_host_click:
  "page_host doc hlog (DebuggerSendCommand tab method (Evaluate (ClickElementScript q raw))) =
     Inr (evaluate_reply (clickElement_script doc q raw))"
  by (simp add: page_host_def)

lemma page_host_accepts:
  "page_host doc hlog (DebuggerSendCommand tab method (Params ps)) = Inr (JObj [])"
  by (simp add: page_host_def)

text \<open>
  Claim C7, at the input where the code departs from it. The selector
  \<open>input[name='q']\<close> matches a 40 by 20 element at (100, 200), yet \<open>clickElement\<close>
  fails and sends no pointer event: spliced as it is into
  \<open>'Element not found: ${selector}'\<close>, its first quote ends the string literal and the
  script does not parse. On the same page under the selector \<open>#search\<close> the claim
  holds: the centre (120, 210) is computed and move, press, release are sent there in
  that order.
\<close>

theorem clickElement_quoted_selector_fails:
  "clickElement (page_host (one_element_page ''input[name='q']'' search_box))
      ((new_transport 1)\<lparr>attached := True\<rparr>) [] ''input[name='q']'' =
     (Inl (Error ''Uncaught''),
      [DebuggerSendCommand 1 ''Runtime.evaluate''
         (Evaluate (ClickElementScript ''input[name='q']'' ''input[name='q']''))])
   \<and> clickElement (page_host (one_element_page ''#search'' search_box))
      ((new_transport 1)\<lparr>attached := True\<rparr>) [] ''#search'' =
     (Inr (JObj [(''tagName'', JStr ''INPUT''), (''text'', JStr [])]),
      [DebuggerSendCommand 1 ''Runtime.evaluate''
         (Evaluate (ClickElementScript ''#search'' ''#search'')),
       DebuggerSendCommand 1 dispatchMouseEvent (mouseMoved (JNum 120) (JNum 210)),
       DebuggerSendCommand 1 dispatchMouseEvent
         (mousePressed (JNum 120) (JNum 210) (JStr ''left'') (JNum 1)),
       DebuggerSendCommand 1 dispatchMouseEvent
         (mouseReleased (JNum 120) (JNum 210) (JStr ''left'') (JNum 1))])"
proof
  define t where "t = (new_transport 1)\<lparr>attached := True\<rparr>"
  have t: "attached t" "tabId t = 1" by (simp_all add: t_def new_transport_def)
  let ?q = "''input[name='q']''"
  let ?doc = "one_element_page ?q search_box"
  have out: "clickElement_script ?doc ?q ?q = SyntaxErr"
    by (simp only: clickElement_script_def quoted_selector_splice splice.case)
  have "evaluate (page_host ?doc) t [] (ClickElementScript ?q ?q) =
     (Inl (Error (text_of (field (field (evaluate_reply SyntaxErr) ''exceptionDetails'') ''text''))),
      [] @ [DebuggerSendCommand (tabId t) ''Runtime.evaluate'' (Evaluate (ClickElementScript ?q ?q))])"
    by (rule evaluate_failed[where h = "page_host ?doc" and hlog = "[]" and out = SyntaxErr,
          OF t(1) _ reports_reply])
       (simp_all add: page_host_click out)
  then have "evaluate (page_host ?doc) t [] (ClickElementScript ?q ?q) =
     (Inl (Error ''Uncaught''),
      [DebuggerSendCommand 1 ''Runtime.evaluate'' (Evaluate (ClickElementScript ?q ?q))])"
    by (simp add: evaluate_reply_def t)
  from clickElement_evaluate_fails[OF this]
  show "clickElement (page_host ?doc) ((new_transport 1)\<lparr>attached := True\<rparr>) [] ?q =
     (Inl (Error ''Uncaught''),
      [DebuggerSendCommand 1 ''Runtime.evaluate'' (Evaluate (ClickElementScript ?q ?q))])"
    by (simp add: t_def)
next
  define t where "t = (new_transport 1)\<lparr>attached := True\<rparr>"
  have t: "attached t" "tabId t = 1" by (simp_all add: t_def new_transport_def)
  let ?q = "''#search''"
  let ?doc = "one_element_page ?q search_box"
  have m: "querySelector ?doc ?q = Match 0" by (simp add: one_element_page_def)
  have n: "nodes ?doc 0 = search_box" by (simp add: one_element_page_def)
  have c: "JNum 120 = JNum (el_left (nodes ?doc 0) + el_width (nodes ?doc 0) / 2)"
    "JNum 210 = JNum (el_top (nodes ?doc 0) + el_height (nodes ?doc 0) / 2)"
    unfolding n by (simp_all add: search_box_def)
  have "clickElement (page_host ?doc) t [] ?q =
           (Inr (JObj [(''tagName'', JStr (el_tagName (nodes ?doc 0))),
                       (''text'', JStr (take 100 (el_textContent (nodes ?doc 0))))]),
            ([] @ [DebuggerSendCommand (tabId t) ''Runtime.evaluate''
                  (Evaluate (ClickElementScript ?q ?q))]) @
            click_events (tabId t) (JNum 120) (JNum 210) (JStr ''left'') (JNum 1))"
    by (rule clickElement_clean_match[where h = "page_host ?doc" and hlog = "[]" and doc = ?doc,
          OF t(1) search_selector_splice m page_host_click reports_reply c refl])
       (simp_all add: mouseMoved_def mousePressed_def mouseReleased_def page_host_accepts)
  then show "clickElement (page_host ?doc) ((new_transport 1)\<lparr>attached := True\<rparr>) [] ?q =
     (Inr (JObj [(''tagName'', JStr ''INPUT''), (''text'', JStr [])]),
      [DebuggerSendCommand 1 ''Runtime.evaluate'' (Evaluate (ClickElementScript ?q ?q)),
       DebuggerSendCommand 1 dispatchMouseEvent (mouseMoved (JNum 120) (JNum 210)),
       DebuggerSendCommand 1 dispatchMouseEvent
         (mousePressed (JNum 120) (JNum 210) (JStr ''left'') (JNum 1)),
       DebuggerSendCommand 1 dispatchMouseEvent
         (mouseReleased (JNum 120) (JNum 210) (JStr ''left'') (JNum 1))])"
    unfolding n t by (simp add: search_box_def click_events_def t_def)
qed


section \<open>Page operations: selectOption\<close>

lemma find_option_priority: "find_option opts os = spec_priority opts os"
  by (simp add: find_option_def spec_priority_def by_value_def by_text_def by_index_def
           Let_def split: option.splits)

lemma find_Some_first:
  "List.find P xs = Some x \<Longrightarrow> P x \<and> x \<in> set xs \<and> x = xs ! length (takeWhile (\<lambda>y. \<not> P y) xs)"
  by (induction xs) (auto split: if_splits)

lemma find_exists: "\<exists>x \<in> set xs. P x \<Longrightarrow> \<exists>y. List.find P xs = Some y"
  by (induction xs) auto

lemma value_wins:
  assumes "so_value opts = Some v" and "\<exists>opt \<in> set os. opt_value opt = v"
  shows "\<exists>opt. spec_priority opts os = Some opt \<and> opt_value opt = v
           \<and> opt = os ! length (takeWhile (\<lambda>y. opt_value y \<noteq> v) os)"
proof -
  obtain opt where f: "List.find (\<lambda>opt. opt_value opt = v) os = Some opt"
    using find_exists[of os "\<lambda>opt. opt_value opt = v"] assms(2) by blast
  have "spec_priority opts os = Some opt"
    using f assms(1) by (simp add: spec_priority_def by_value_def)
  with find_Some_first[OF f] show ?thesis by blast
qed

lemma takeWhile_stops:
  assumes "x \<in> set xs" and "\<not> P x"
  shows "length (takeWhile P xs) < length xs"
  using assms by (induction xs) auto

lemma selected_has_value:
  assumes "opt \<in> set os"
  shows "opt_value (os ! length (takeWhile (\<lambda>y. opt_value y \<noteq> opt_value opt) os)) = opt_value opt"
    and "length (takeWhile (\<lambda>y. opt_value y \<noteq> opt_value opt) os) < length os"
proof -
  show l: "length (takeWhile (\<lambda>y. opt_value y \<noteq> opt_value opt) os) < length os"
    by (rule takeWhile_stops[OF assms]) simp
  from nth_length_takeWhile[OF l]
  show "opt_value (os ! length (takeWhile (\<lambda>y. opt_value y \<noteq> opt_value opt) os)) = opt_value opt"
    by simp
qed

lemma spec_priority_in_set: "spec_priority opts os = Some opt \<Longrightarrow> opt \<in> set os"
  by (auto simp: spec_priority_def by_value_def by_text_def by_index_def
           split: option.splits if_splits dest: find_Some_first)

lemma selectOption_script_success:
  assumes "fst (selectOption_script doc q raw opts) = Returned r"
  shows "\<exists>n opt. splice_sq raw = Spliced raw \<and> querySelector doc q = Match n
           \<and> el_tagName (nodes doc n) = ''SELECT''
           \<and> spec_priority opts (el_options (nodes doc n)) = Some opt
           \<and> selectOption_script doc q raw opts =
               (Returned (JObj [(''value'', JStr (opt_value opt)), (''text'', JStr (opt_text opt))]),
                doc\<lparr>nodes := (nodes doc)
                      (n := (nodes doc n)
                         \<lparr>el_selectedIndex :=
                            length (takeWhile (\<lambda>y. opt_value y \<noteq> opt_value opt)
                                      (el_options (nodes doc n)))\<rparr>),
                    dispatched := dispatched doc @ [(n, ''change''), (n, ''input'')]\<rparr>)"
proof (cases "splice_sq raw")
  case (Spliced m)
  then have m: "m = raw" by (rule splice_text)
  show ?thesis
  proof (cases "querySelector doc q")
    case (Match n)
    show ?thesis
    proof (cases "el_tagName (nodes doc n) = ''SELECT''")
      case True
      show ?thesis
      proof (cases "find_option opts (el_options (nodes doc n))")
        case None
        with assms Spliced Match True show ?thesis by (simp add: selectOption_script_def)
      next
        case (Some opt)
        with Spliced Match True m show ?thesis
          by (simp add: selectOption_script_def find_option_priority[symmetric])
      qed
    next
      case False
      with assms Spliced Match show ?thesis by (simp add: selectOption_script_def)
    qed
  qed (use assms Spliced in \<open>simp_all add: selectOption_script_def\<close>)
qed (use assms in \<open>simp_all add: selectOption_script_def\<close>)

lemma selectOption_script_fails:
  assumes "querySelector doc q = NoMatch
           \<or> (\<exists>n. querySelector doc q = Match n \<and> el_tagName (nodes doc n) \<noteq> ''SELECT'')
           \<or> (\<exists>n. querySelector doc q = Match n \<and>
                  spec_priority opts (el_options (nodes doc n)) = None)"
  shows "fst (selectOption_script doc q raw opts) \<noteq> Returned r"
    and "snd (selectOption_script doc q raw opts) = doc"
proof -
  have "fst (selectOption_script doc q raw opts) \<noteq> Returned r
        \<and> snd (selectOption_script doc q raw opts) = doc"
  proof (cases "splice_sq raw")
    case (Spliced m)
    from assms show ?thesis
    proof (elim disjE exE conjE)
      assume "querySelector doc q = NoMatch"
      with Spliced show ?thesis by (simp add: selectOption_script_def)
    next
      fix n assume "querySelector doc q = Match n" "el_tagName (nodes doc n) \<noteq> ''SELECT''"
      with Spliced show ?thesis by (simp add: selectOption_script_def)
    next
      fix n assume "querySelector doc q = Match n"
        "spec_priority opts (el_options (nodes doc n)) = None"
      with Spliced show ?thesis
        by (simp add: selectOption_script_def find_option_priority)
    qed
  qed (simp_all add: selectOption_script_def)
  then show "fst (selectOption_script doc q raw opts) \<noteq> Returned r"
    and "snd (selectOption_script doc q raw opts) = doc" by simp_all
qed

lemma selectOption_script_clean:
  assumes "splice_sq raw = Spliced m" and "querySelector doc q = Match n"
    and "el_tagName (nodes doc n) = ''SELECT''"
    and "spec_priority opts (el_options (nodes doc n)) = Some opt"
  shows "fst (selectOption_script doc q raw opts) =
           Returned (JObj [(''value'', JStr (opt_value opt)), (''text'', JStr (opt_text opt))])"
  using assms by (simp add: selectOption_script_def find_option_priority)


lemma selectOption_page_level:
  assumes att: "attached t"
    and reply: "h hlog (DebuggerSendCommand (tabId t) ''Runtime.evaluate''
                  (Evaluate (SelectOptionScript selector selector opts))) = Inr reply"
    and rep: "reports reply out"
  shows "(case out of
            Returned r \<Rightarrow> fst (selectOption h t hlog selector opts) = Inr r
          | Threw m \<Rightarrow> (\<exists>e. fst (selectOption h t hlog selector opts) = Inl e)
          | SyntaxErr \<Rightarrow> (\<exists>e. fst (selectOption h t hlog selector opts) = Inl e)
          | Unmodelled \<Rightarrow> True)"
proof (cases out)
  case (Returned r)
  with evaluate_returned[where h = h and hlog = hlog, OF att reply] rep
  show ?thesis by (simp add: selectOption_def)
next
  case (Threw m)
  with evaluate_failed[where h = h and hlog = hlog, OF att reply rep]
  show ?thesis by (simp add: selectOption_def)
next
  case SyntaxErr
  with evaluate_failed[where h = h and hlog = hlog, OF att reply rep]
  show ?thesis by (simp add: selectOption_def)
next
  case Unmodelled
  then show ?thesis by simp
qed

lemma page_host_select:
  "page_host doc hlog (DebuggerSendCommand tab method (Evaluate (SelectOptionScript q raw opts))) =
     Inr (evaluate_reply (fst (selectOption_script doc q raw opts)))"
  by (simp add: page_host_def)

lemma quoted_select_splice: "splice_sq ''select[name='l']'' = SpliceSyntaxError"
  by (simp add: after_quote_def ident_start_def ident_part_def)

text \<open>
  Claim C6, at the inputs where the code departs from it. The selector
  \<open>select[name='l']\<close> matches a select element with the options b/B and a/A, yet
  \<open>selectOption\<close> with value a and text B fails, selects nothing and dispatches no
  event: spliced as it is into \<open>'Element is not a SELECT: ${selector}'\<close>, the
  selector's first quote ends the string literal and the script does not parse. And on a
  select whose options First and Second both have the value 1, asking for the text
  Second returns the option Second while the element shows First: the script selects by
  assigning \<open>select.value\<close>, which takes the first option with that value. On the page
  with the options b/B and a/A under the selector \<open>#letters\<close> the claim holds: value a
  wins over text B, the option a/A is returned and selected, and \<open>change\<close> then
  \<open>input\<close> are dispatched on the select element.
\<close>

theorem selectOption_quoted_selector_fails:
  "selectOption (page_host (one_element_page ''select[name='l']'' letter_select))
      ((new_transport 1)\<lparr>attached := True\<rparr>) [] ''select[name='l']''
      \<lparr>so_value = Some ''a'', so_text = Some ''B'', so_index = None\<rparr> =
     (Inl (Error ''Uncaught''),
      [DebuggerSendCommand 1 ''Runtime.evaluate''
         (Evaluate (SelectOptionScript ''select[name='l']'' ''select[name='l']''
            \<lparr>so_value = Some ''a'', so_text = Some ''B'', so_index = None\<rparr>))])
   \<and> selectOption_script (one_element_page ''select[name='l']'' letter_select)
        ''select[name='l']'' ''select[name='l']''
        \<lparr>so_value = Some ''a'', so_text = Some ''B'', so_index = None\<rparr> =
       (SyntaxErr, one_element_page ''select[name='l']'' letter_select)
   \<and> fst (selectOption_script (one_element_page ''#twin'' twin_select) ''#twin'' ''#twin''
        \<lparr>so_value = None, so_text = Some ''Second'', so_index = None\<rparr>) =
       Returned (JObj [(''value'', JStr ''1''), (''text'', JStr ''Second'')])
   \<and> opt_text (el_options twin_select !
        el_selectedIndex (nodes (snd (selectOption_script (one_element_page ''#twin'' twin_select)
          ''#twin'' ''#twin'' \<lparr>so_value = None, so_text = Some ''Second'', so_index = None\<rparr>)) 0)) =
       ''First''
   \<and> selectOption (page_host (one_element_page ''#letters'' letter_select))
      ((new_transport 1)\<lparr>attached := True\<rparr>) [] ''#letters''
      \<lparr>so_value = Some ''a'', so_text = Some ''B'', so_index = None\<rparr> =
     (Inr (JObj [(''value'', JStr ''a''), (''text'', JStr ''A'')]),
      [DebuggerSendCommand 1 ''Runtime.evaluate''
         (Evaluate (SelectOptionScript ''#letters'' ''#letters''
            \<lparr>so_value = Some ''a'', so_text = Some ''B'', so_index = None\<rparr>))])
   \<and> dispatched (snd (selectOption_script (one_element_page ''#letters'' letter_select)
        ''#letters'' ''#letters'' \<lparr>so_value = Some ''a'', so_text = Some ''B'', so_index = None\<rparr>)) =
       [(0, ''change''), (0, ''input'')]
   \<and> el_options letter_select !
        el_selectedIndex (nodes (snd (selectOption_script (one_element_page ''#letters'' letter_select)
          ''#letters'' ''#letters'' \<lparr>so_value = Some ''a'', so_text = Some ''B'', so_index = None\<rparr>)) 0) =
       \<lparr>opt_value = ''a'', opt_text = ''A''\<rparr>"
proof -
  define t where "t = (new_transport 1)\<lparr>attached := True\<rparr>"
  have t: "attached t" "tabId t = 1" by (simp_all add: t_def new_transport_def)
  define S0 where "S0 = \<lparr>so_value = Some ''a'', so_text = Some ''B'', so_index = None\<rparr>"
  define S1 where "S1 = \<lparr>so_value = None, so_text = Some ''Second'', so_index = None\<rparr>"
  let ?q = "''select[name='l']''"
  let ?doc = "one_element_page ?q letter_select"
  have out: "selectOption_script ?doc ?q ?q S0 = (SyntaxErr, ?doc)"
    by (simp only: selectOption_script_def quoted_select_splice splice.case)
  have "evaluate (page_host ?doc) t [] (SelectOptionScript ?q ?q S0) =
     (Inl (Error (text_of (field (field (evaluate_reply SyntaxErr) ''exceptionDetails'') ''text''))),
      [] @ [DebuggerSendCommand (tabId t) ''Runtime.evaluate'' (Evaluate (SelectOptionScript ?q ?q S0))])"
    by (rule evaluate_failed[where h = "page_host ?doc" and hlog = "[]" and out = SyntaxErr,
          OF t(1) _ reports_reply])
       (simp_all add: page_host_select out)
  then have a: "selectOption (page_host ?doc) t [] ?q S0 =
     (Inl (Error ''Uncaught''),
      [DebuggerSendCommand 1 ''Runtime.evaluate'' (Evaluate (SelectOptionScript ?q ?q S0))])"
    by (simp add: selectOption_def evaluate_reply_def t)
  let ?tw = "one_element_page ''#twin'' twin_select"
  have tw: "selectOption_script ?tw ''#twin'' ''#twin'' S1 =
      (Returned (JObj [(''value'', JStr ''1''), (''text'', JStr ''Second'')]),
       ?tw\<lparr>nodes := (nodes ?tw)(0 := (nodes ?tw 0)\<lparr>el_selectedIndex := 0\<rparr>),
            dispatched := [(0, ''change''), (0, ''input'')]\<rparr>)"
    by (simp add: selectOption_script_def one_element_page_def twin_select_def find_option_def S1_def)
  have c: "fst (selectOption_script ?tw ''#twin'' ''#twin'' S1) =
       Returned (JObj [(''value'', JStr ''1''), (''text'', JStr ''Second'')])"
    and d: "opt_text (el_options twin_select !
        el_selectedIndex (nodes (snd (selectOption_script ?tw ''#twin'' ''#twin'' S1)) 0)) = ''First''"
    unfolding tw by (simp_all add: twin_select_def)
  let ?le = "one_element_page ''#letters'' letter_select"
  have le: "selectOption_script ?le ''#letters'' ''#letters'' S0 =
      (Returned (JObj [(''value'', JStr ''a''), (''text'', JStr ''A'')]),
       ?le\<lparr>nodes := (nodes ?le)(0 := (nodes ?le 0)\<lparr>el_selectedIndex := 1\<rparr>),
            dispatched := [(0, ''change''), (0, ''input'')]\<rparr>)"
    by (simp add: selectOption_script_def one_element_page_def letter_select_def find_option_def S0_def)
  have "evaluate (page_host ?le) t [] (SelectOptionScript ''#letters'' ''#letters'' S0) =
     (Inr (JObj [(''value'', JStr ''a''), (''text'', JStr ''A'')]),
      [] @ [DebuggerSendCommand (tabId t) ''Runtime.evaluate''
              (Evaluate (SelectOptionScript ''#letters'' ''#letters'' S0))])"
    by (rule evaluate_returned[where h = "page_host ?le" and hlog = "[]",
          OF t(1) page_host_select])
       (simp add: le reports_reply)
  then have e: "selectOption (page_host ?le) t [] ''#letters'' S0 =
     (Inr (JObj [(''value'', JStr ''a''), (''text'', JStr ''A'')]),
      [DebuggerSendCommand 1 ''Runtime.evaluate''
         (Evaluate (SelectOptionScript ''#letters'' ''#letters'' S0))])"
    by (simp add: selectOption_def t)
  have f: "dispatched (snd (selectOption_script ?le ''#letters'' ''#letters'' S0)) =
       [(0, ''change''), (0, ''input'')]"
    and g: "el_options letter_select !
        el_selectedIndex (nodes (snd (selectOption_script ?le ''#letters'' ''#letters'' S0)) 0) =
       \<lparr>opt_value = ''a'', opt_text = ''A''\<rparr>"
    unfolding le by (simp_all add: letter_select_def)
  from a out c d e f g show ?thesis
    unfolding t_def S0_def S1_def by (intro conjI)
qed


section \<open>Action executor and tool dispatcher\<close>

lemma call_ok: "r = Inr v \<Longrightarrow> call name r tr k = k v (tr @ [(name, None)])"
  by (simp add: call_def)

lemma call_err: "r = Inl e \<Longrightarrow> call name r tr k = (Inl e, tr @ [(name, Some e)])"
  by (simp add: call_def)

lemma executeAction_screenshot:
  assumes "op_getActivePage ops = Inr ()"
    and "op_captureScreenshot ops (or_default (field params ''format'') (JStr ''png''))
           (field params ''quality'') (field params ''fullPage'') = Inr img"
    and "op_getViewportSize ops = Inr viewport"
  shows "fst (executeAction ops ''screenshot'' params) =
           Inr (JObj [(''image'', img), (''width'', field viewport ''width''),
                      (''height'', field viewport ''height'')])"
  by (simp add: executeAction_def call_ok[OF assms(1)] call_ok[OF assms(2)] call_ok[OF assms(3)])

lemma callTool_screenshot:
  assumes "truthy img"
  shows "callTool tostr stringify ''browser_screenshot''
           (Inr (JObj [(''image'', img), (''width'', w), (''height'', h)])) =
         \<lparr>content = [ImageContent img ''image/png'',
                     TextContent (''Screenshot captured: '' @ tostr w @ ''x'' @ tostr h)],
          isError = False\<rparr>"
  using assms by (simp add: callTool_def)

lemma handleMCPRequest_success:
  assumes "fst (executeAction ops action (or_default params (JObj []))) = Inr result"
  shows "handleMCPRequest ops show_sent hide_sent action params =
           \<lparr>mcp_success = True, mcp_data = result, mcp_error = None\<rparr>"
  using assms by (simp add: handleMCPRequest_def showOverlay_def hideOverlay_def split: sum.splits)

lemma handleMCPRequest_failure:
  assumes "fst (executeAction ops action (or_default params (JObj []))) = Inl e"
  shows "handleMCPRequest ops show_sent hide_sent action params = failure_response e"
  using assms by (simp add: handleMCPRequest_def showOverlay_def hideOverlay_def split: sum.splits)


lemma getAction_screenshot: "getActionFromToolName ''browser_screenshot'' = ''screenshot''"
  by (simp add: getActionFromToolName_def tool_mapping_def)

text \<open>
  Claim C10. Whatever format, quality and fullPage the caller asks for, a screenshot
  that succeeds with a non-empty image yields the result object with the image and the
  width and height read from \<open>getViewportSize\<close>; the executor answers with that object
  as data; and the dispatcher, for the tool \<open>browser_screenshot\<close>, turns it into an image
  part whose mimeType is \<open>image/png\<close> followed by the caption
  \<open>Screenshot captured: WxH\<close> with the viewport's width and height.
\<close>

theorem screenshot_reports_png_and_viewport:
  "op_getActivePage ops = Inr ()
   \<and> op_captureScreenshot ops (or_default (field (JObj kvs) ''format'') (JStr ''png''))
        (field (JObj kvs) ''quality'') (field (JObj kvs) ''fullPage'') = Inr img
   \<and> truthy img
   \<and> op_getViewportSize ops = Inr viewport \<longrightarrow>
     fst (executeAction ops ''screenshot'' (JObj kvs)) =
       Inr (JObj [(''image'', img), (''width'', field viewport ''width''),
                  (''height'', field viewport ''height'')])
     \<and> handleMCPRequest ops show_sent hide_sent ''screenshot'' (JObj kvs) =
         \<lparr>mcp_success = True,
          mcp_data = JObj [(''image'', img), (''width'', field viewport ''width''),
                           (''height'', field viewport ''height'')],
          mcp_error = None\<rparr>
     \<and> getActionFromToolName ''browser_screenshot'' = ''screenshot''
     \<and> callTool tostr stringify ''browser_screenshot''
           (Inr (JObj [(''image'', img), (''width'', field viewport ''width''),
                       (''height'', field viewport ''height'')])) =
         \<lparr>content =
            [ImageContent img ''image/png'',
             TextContent (''Screenshot captured: '' @ tostr (field viewport ''width'') @ ''x'' @
                          tostr (field viewport ''height''))],
          isError = False\<rparr>"
proof (intro impI, elim conjE)
  assume a: "op_getActivePage ops = Inr ()"
    "op_captureScreenshot ops (or_default (field (JObj kvs) ''format'') (JStr ''png''))
        (field (JObj kvs) ''quality'') (field (JObj kvs) ''fullPage'') = Inr img"
    "truthy img" "op_getViewportSize ops = Inr viewport"
  have p: "or_default (JObj kvs) (JObj []) = JObj kvs" by (simp add: or_default_def)
  note e = executeAction_screenshot[OF a(1,2,4)]
  note hm = handleMCPRequest_success[where params = "JObj kvs", unfolded p, OF e]
  from e hm getAction_screenshot callTool_screenshot[OF a(3)]
  show "fst (executeAction ops ''screenshot'' (JObj kvs)) =
       Inr (JObj [(''image'', img), (''width'', field viewport ''width''),
                  (''height'', field viewport ''height'')])
     \<and> handleMCPRequest ops show_sent hide_sent ''screenshot'' (JObj kvs) =
         \<lparr>mcp_success = True,
          mcp_data = JObj [(''image'', img), (''width'', field viewport ''width''),
                           (''height'', field viewport ''height'')],
          mcp_error = None\<rparr>
     \<and> getActionFromToolName ''browser_screenshot'' = ''screenshot''
     \<and> callTool tostr stringify ''browser_screenshot''
           (Inr (JObj [(''image'', img), (''width'', field viewport ''width''),
                       (''height'', field viewport ''height'')])) =
         \<lparr>content =
            [ImageContent img ''image/png'',
             TextContent (''Screenshot captured: '' @ tostr (field viewport ''width'') @ ''x'' @
                          tostr (field viewport ''height''))],
          isError = False\<rparr>"
    by (intro conjI)
qed

theorem screenshot_reports_png_and_viewport_witness:
  "callTool (\<lambda>v. case v of JNum n \<Rightarrow> dec (nat \<lfloor>n\<rfloor>) | _ \<Rightarrow> ''undefined'') (\<lambda>v. [])
     ''browser_screenshot''
     (Inr (mcp_data (handleMCPRequest
        (quiet_ops\<lparr>op_captureScreenshot := (\<lambda>f q b. Inr (JStr ''/9j/4AAQSkZJRg'')),
                   op_getViewportSize := Inr (JObj [(''width'', JNum 1280), (''height'', JNum 720)])\<rparr>)
        (Inr ()) (Inr ()) ''screenshot''
        (JObj [(''format'', JStr ''jpeg''), (''fullPage'', JBool True)])))) =
   \<lparr>content = [ImageContent (JStr ''/9j/4AAQSkZJRg'') ''image/png'',
               TextContent ''Screenshot captured: 1280x720''],
    isError = False\<rparr>"
proof -
  define ops where "ops = quiet_ops\<lparr>op_captureScreenshot := (\<lambda>f q b. Inr (JStr ''/9j/4AAQSkZJRg'')),
                   op_getViewportSize := Inr (JObj [(''width'', JNum 1280), (''height'', JNum 720)])\<rparr>"
  define vp where "vp = JObj [(''width'', JNum 1280), (''height'', JNum 720)]"
  define ts where "ts = (\<lambda>v. case v of JNum n \<Rightarrow> dec (nat \<lfloor>n\<rfloor>) | _ \<Rightarrow> ''undefined'')"
  have a: "op_getActivePage ops = Inr ()" by (simp add: ops_def quiet_ops_def)
  have b: "op_captureScreenshot ops x y z = Inr (JStr ''/9j/4AAQSkZJRg'')" for x y z
    by (simp add: ops_def)
  have c: "truthy (JStr ''/9j/4AAQSkZJRg'')" by simp
  have d: "op_getViewportSize ops = Inr vp" by (simp add: ops_def vp_def)
  note inst = screenshot_reports_png_and_viewport
    [where ops = ops and kvs = "[(''format'', JStr ''jpeg''), (''fullPage'', JBool True)]"
       and img = "JStr ''/9j/4AAQSkZJRg''" and viewport = vp and tostr = ts
       and stringify = "\<lambda>v. []" and show_sent = "Inr ()" and hide_sent = "Inr ()",
     THEN mp, OF conjI[OF a conjI[OF b conjI[OF c d]]]]
  have w: "field vp ''width'' = JNum 1280" "field vp ''height'' = JNum 720"
    by (simp_all add: vp_def)
  have t: "ts (JNum 1280) = ''1280''" "ts (JNum 720) = ''720''"
    by (simp_all add: ts_def dec.simps digit_def)
  from inst show ?thesis
    unfolding ops_def[symmetric] ts_def[symmetric] w t by simp
qed


section \<open>Errors on their way to the caller\<close>

lemma clean_empty: "clean []"
  by (simp add: clean_def)

lemma clean_ok: "clean tr \<Longrightarrow> clean (tr @ [(name, None)])"
  by (simp add: clean_def)

lemma clean_wait: "clean tr \<Longrightarrow> clean (tr @ [(''waitForNavigation'', x)])"
  by (auto simp: clean_def)

lemma faithful_return: "clean tr \<Longrightarrow> faithful (r, tr)"
  by (auto simp: clean_def faithful_def)

lemma faithful_call:
  assumes "clean tr" and "\<And>v tr'. clean tr' \<Longrightarrow> faithful (k v tr')"
  shows "faithful (call name r tr k)"
proof (cases r)
  case (Inl e)
  with assms(1) show ?thesis by (auto simp: call_def clean_def faithful_def)
next
  case (Inr v)
  with assms(2)[OF clean_ok[OF assms(1)]] show ?thesis by (simp add: call_def)
qed

lemma faithful_caught:
  assumes "clean tr" and "\<And>tr'. clean tr' \<Longrightarrow> faithful (k tr')"
  shows "faithful (call_caught ''waitForNavigation'' r tr k)"
  using assms(2)[OF clean_wait[OF assms(1)]] by (cases r) (simp_all add: call_caught_def)

lemma faithful_if:
  assumes "c \<Longrightarrow> faithful a" and "\<not> c \<Longrightarrow> faithful b"
  shows "faithful (if c then a else b)"
  using assms by simp

lemma executeAction_faithful: "faithful (executeAction ops action params)"
  unfolding executeAction_def
  by (intro faithful_call faithful_caught faithful_if faithful_return clean_empty; assumption)

lemma page_errors_end_executeAction:
  assumes "(n, Some e) \<in> set (snd (executeAction ops action params))"
    and "n \<noteq> ''waitForNavigation''"
  shows "fst (executeAction ops action params) = Inl e"
  using executeAction_faithful[of ops action params] assms unfolding faithful_def by blast

lemma callTool_error:
  "callTool tostr stringify name (Inl e) =
     \<lparr>content = [TextContent (''Error: '' @ message_of e)], isError = True\<rparr>"
  by (simp add: callTool_def)

lemma response_failure_settles:
  assumes "map_of (pendingRequests s) i = Some h"
  shows "settled (onMessage s (Response i (Some (payload_of (failure_response e))))) =
           settled s @ [(i, Rejected (Error (if message_of e = [] then ''Unknown error''
                                             else message_of e)))]"
  using assms
  by (simp add: onMessage_def Let_def payload_of_def failure_response_def error_or_unknown_def)


lemma replay_append: "replay h l (cs1 @ cs2) = replay h l cs1 @ replay h (l @ cs1) cs2"
  by (induction cs1 arbitrary: l) simp_all

lemma passes_onI:
  assumes "snd res = l0 @ cs" and "\<And>e. e \<in> set (replay h l0 cs) \<Longrightarrow> fst res = Inl e"
  shows "passes_on h l0 res"
  using assms by (simp add: passes_on_def)

lemma passes_onD:
  assumes "passes_on h l0 res"
  shows "\<exists>cs. snd res = l0 @ cs \<and> (\<forall>e \<in> set (replay h l0 cs). fst res = Inl e)"
proof (intro exI conjI)
  show "snd res = l0 @ drop (length l0) (snd res)"
    using assms by (metis append_take_drop_id passes_on_def)
  show "\<forall>e \<in> set (replay h l0 (drop (length l0) (snd res))). fst res = Inl e"
    using assms by (simp add: passes_on_def)
qed

lemma passes_on_return: "passes_on h l (r, l)"
  by (rule passes_onI[where cs = "[]"]) simp_all

lemma passes_on_andThen:
  assumes m: "passes_on h l0 m" and k: "\<And>v l. passes_on h l (k v l)"
  shows "passes_on h l0 (andThen m k)"
proof (cases m)
  case (Pair r l1)
  show ?thesis
  proof (cases r)
    case (Inl e)
    from passes_onD[OF m] obtain cs1 where c1: "snd m = l0 @ cs1"
      and e1: "\<And>e. e \<in> set (replay h l0 cs1) \<Longrightarrow> fst m = Inl e" by blast
    have a: "andThen m k = (Inl e, l1)" using Pair Inl by (simp add: andThen_def)
    show ?thesis
      unfolding a
      by (rule passes_onI[where cs = cs1]) (use c1 e1 Pair Inl in auto)
  next
    case (Inr v)
    from passes_onD[OF m] obtain cs1 where c1: "snd m = l0 @ cs1"
      and e1: "\<And>e. e \<in> set (replay h l0 cs1) \<Longrightarrow> fst m = Inl e" by blast
    from e1 Pair Inr have n1: "replay h l0 cs1 = []" by (cases "replay h l0 cs1") auto
    from passes_onD[OF k[of l1 v]] obtain cs2 where c2: "snd (k v l1) = l1 @ cs2"
      and e2: "\<And>e. e \<in> set (replay h l1 cs2) \<Longrightarrow> fst (k v l1) = Inl e" by blast
    have l1: "l1 = l0 @ cs1" using c1 Pair by simp
    have a: "andThen m k = k v l1" using Pair Inr by (simp add: andThen_def)
    show ?thesis
      unfolding a
      by (rule passes_onI[where cs = "cs1 @ cs2"])
         (use c2 e2 in \<open>simp_all add: l1 replay_append n1\<close>)
  qed
qed

lemma passes_on_send:
  assumes "attached t" and "\<And>sc. params \<noteq> Evaluate sc"
  shows "passes_on h l (send h t l method params)"
proof (rule passes_onI[where cs = "[DebuggerSendCommand (tabId t) method params]"])
  show "snd (send h t l method params) = l @ [DebuggerSendCommand (tabId t) method params]"
    using assms(1) by (simp add: send_def)
  fix e assume "e \<in> set (replay h l [DebuggerSendCommand (tabId t) method params])"
  then show "fst (send h t l method params) = Inl e"
    using assms by (cases params) (auto simp: send_def raised_def split: sum.splits)
qed

lemma passes_on_evaluate:
  assumes "attached t"
  shows "passes_on h l (evaluate h t l sc)"
proof (rule passes_onI[where cs = "[DebuggerSendCommand (tabId t) ''Runtime.evaluate'' (Evaluate sc)]"])
  show "snd (evaluate h t l sc) = l @ [DebuggerSendCommand (tabId t) ''Runtime.evaluate'' (Evaluate sc)]"
    using assms by (simp add: evaluate_def send_def split: sum.splits)
  fix e assume "e \<in> set (replay h l [DebuggerSendCommand (tabId t) ''Runtime.evaluate'' (Evaluate sc)])"
  then show "fst (evaluate h t l sc) = Inl e"
    using assms by (auto simp: evaluate_def send_def raised_def split: sum.splits if_splits)
qed

lemma passes_on_if:
  assumes "c \<Longrightarrow> passes_on h l a" and "\<not> c \<Longrightarrow> passes_on h l b"
  shows "passes_on h l (if c then a else b)"
  using assms by simp

lemma clickAt_andThen:
  "clickAt h t hlog x y b c =
     andThen (send h t hlog dispatchMouseEvent (mouseMoved x y)) (\<lambda>_ l1.
     andThen (send h t l1 dispatchMouseEvent
                (mousePressed x y (if truthy b then b else JStr ''left'')
                   (if truthy c then c else JNum 1))) (\<lambda>_ l2.
     andThen (send h t l2 dispatchMouseEvent
                (mouseReleased x y (if truthy b then b else JStr ''left'')
                   (if truthy c then c else JNum 1))) (\<lambda>_ l3.
     (Inr (), l3))))"
  unfolding clickAt_def andThen_def Let_def by (simp split: prod.splits sum.splits)

lemma passes_on_clickAt:
  assumes "attached t"
  shows "passes_on h l (clickAt h t l x y b c)"
  unfolding clickAt_andThen
  by (intro passes_on_andThen passes_on_return passes_on_send[OF assms])
     (simp_all add: mouseMoved_def mousePressed_def mouseReleased_def)

lemma clickElement_andThen:
  "clickElement h t hlog selector =
     andThen (evaluate h t hlog (ClickElementScript selector selector)) (\<lambda>elementInfo l.
     andThen (clickAt h t l (field elementInfo ''x'') (field elementInfo ''y'')
                JUndefined JUndefined) (\<lambda>_ l2.
     (Inr (JObj [(''tagName'', field elementInfo ''tagName''),
                 (''text'', field elementInfo ''text'')]), l2)))"
  unfolding clickElement_def andThen_def by (simp split: prod.splits sum.splits)

lemma passes_on_clickElement:
  assumes "attached t"
  shows "passes_on h l (clickElement h t l selector)"
  unfolding clickElement_andThen
  by (intro passes_on_andThen passes_on_return passes_on_evaluate[OF assms]
        passes_on_clickAt[OF assms])

lemma passes_on_selectOption:
  assumes "attached t"
  shows "passes_on h l (selectOption h t l selector opts)"
  unfolding selectOption_def by (rule passes_on_evaluate[OF assms])

lemma passes_on_navigateTo:
  assumes "attached t"
  shows "passes_on h l (navigateTo h t l url)"
  unfolding navigateTo_def by (rule passes_on_send[OF assms]) simp

lemma passes_on_navigateToHistoryEntry:
  assumes "attached t"
  shows "passes_on h l (navigateToHistoryEntry h t l entry)"
  unfolding navigateToHistoryEntry_def
  by (intro passes_on_if passes_on_andThen passes_on_return passes_on_send[OF assms]) simp

lemma passes_on_goBack:
  assumes "attached t"
  shows "passes_on h l (goBack h t l)"
  unfolding goBack_def
proof (intro passes_on_andThen passes_on_send[OF assms] passes_on_if passes_on_return)
  fix v l'
  show "passes_on h l'
          (case field v ''currentIndex'' of
             JNum n \<Rightarrow> if 0 < n then navigateToHistoryEntry h t l' (entry_at (field v ''entries'') (n - 1))
                       else (Inr (), l')
           | _ \<Rightarrow> (Inr (), l'))"
    by (cases "field v ''currentIndex''")
       (simp_all add: passes_on_return passes_on_navigateToHistoryEntry[OF assms])
qed simp

lemma passes_on_goForward:
  assumes "attached t"
  shows "passes_on h l (goForward h t l)"
  unfolding goForward_def
proof (intro passes_on_andThen passes_on_send[OF assms] passes_on_if passes_on_return)
  fix v l'
  show "passes_on h l'
          (case (field v ''currentIndex'', field v ''entries'') of
             (JNum n, JArr xs) \<Rightarrow>
               if n < of_nat (length xs) - 1
               then navigateToHistoryEntry h t l' (entry_at (JArr xs) (n + 1))
               else (Inr (), l')
           | _ \<Rightarrow> (Inr (), l'))"
    by (cases "field v ''currentIndex''"; cases "field v ''entries''")
       (simp_all add: passes_on_return passes_on_navigateToHistoryEntry[OF assms])
qed simp

lemma passes_on_reload:
  assumes "attached t"
  shows "passes_on h l (reload h t l)"
  unfolding reload_def
  by (intro passes_on_andThen passes_on_return passes_on_send[OF assms]) simp

lemma passes_on_captureScreenshot:
  assumes "attached t"
  shows "passes_on h l (captureScreenshot h t l format quality clip cbv)"
  unfolding captureScreenshot_def
  by (intro passes_on_andThen passes_on_if passes_on_return passes_on_send[OF assms])
     (simp add: captureScreenshot_params_def)

lemma passes_on_type_chars:
  assumes "attached t"
  shows "passes_on h l (type_chars h t l str)"
proof (induction str arbitrary: l)
  case Nil
  show ?case by (simp add: passes_on_return)
next
  case (Cons c cs)
  show ?case
    unfolding type_chars.simps
    by (intro passes_on_andThen passes_on_send[OF assms] Cons.IH) (simp add: insertText_def)
qed

lemma passes_on_type:
  assumes "attached t"
  shows "passes_on h l (type h t l text delay)"
  unfolding type_def
  by (intro passes_on_if passes_on_andThen passes_on_return passes_on_send[OF assms]
        passes_on_type_chars[OF assms])
     (simp add: insertText_def)

lemma passes_on_typeInElement:
  assumes "attached t"
  shows "passes_on h l (typeInElement h t l selector text clearFirst delay)"
  unfolding typeInElement_def
  by (intro passes_on_andThen passes_on_if passes_on_return passes_on_clickElement[OF assms]
        passes_on_evaluate[OF assms] passes_on_type[OF assms])

lemma passes_on_pressKey:
  assumes "attached t"
  shows "passes_on h l (pressKey h t l key)"
  unfolding pressKey_def
  by (intro passes_on_andThen passes_on_return passes_on_send[OF assms])
     (simp_all add: keyEvent_def)

lemma passes_on_scroll:
  assumes "attached t"
  shows "passes_on h l (scroll h t l direction distance)"
  unfolding scroll_def Let_def
  by (intro passes_on_andThen passes_on_evaluate[OF assms] passes_on_send[OF assms])
     (simp add: mouseWheel_def)

lemma passes_on_scrollToElement:
  assumes "attached t"
  shows "passes_on h l (scrollToElement h t l selector)"
  unfolding scrollToElement_def
  by (intro passes_on_andThen passes_on_return passes_on_evaluate[OF assms])

lemma passes_on_scrollTo:
  assumes "attached t"
  shows "passes_on h l (scrollTo h t l x y)"
  unfolding scrollTo_def
  by (intro passes_on_andThen passes_on_return passes_on_evaluate[OF assms])

lemma passes_on_getPageInfo:
  assumes "attached t"
  shows "passes_on h l (getPageInfo h t l)"
  unfolding getPageInfo_def by (rule passes_on_evaluate[OF assms])

lemma passes_on_getViewportSize:
  assumes "attached t"
  shows "passes_on h l (getViewportSize h t l)"
  unfolding getViewportSize_def by (rule passes_on_evaluate[OF assms])


lemma andThen_fails: "m = (Inl e, l) \<Longrightarrow> andThen m k = (Inl e, l)"
  by (simp add: andThen_def)

lemma send_detached: "\<not> attached t \<Longrightarrow> send h t l method params = (Inl not_attached, l)"
  by (simp add: send_def not_attached_def)

lemma evaluate_not_attached: "\<not> attached t \<Longrightarrow> evaluate h t l sc = (Inl not_attached, l)"
  by (simp add: evaluate_detached not_attached_def)

lemma clickAt_detached: "\<not> attached t \<Longrightarrow> clickAt h t l x y b c = (Inl not_attached, l)"
  unfolding clickAt_andThen by (simp add: andThen_fails[OF send_detached])

lemma clickElement_detached: "\<not> attached t \<Longrightarrow> clickElement h t l selector = (Inl not_attached, l)"
  unfolding clickElement_andThen by (simp add: andThen_fails[OF evaluate_not_attached])

lemma type_chars_detached:
  "\<not> attached t \<Longrightarrow> str \<noteq> [] \<Longrightarrow> type_chars h t l str = (Inl not_attached, l)"
  by (cases str) (simp_all add: andThen_fails[OF send_detached])

lemma detached_operations:
  assumes d: "\<not> attached t"
  shows "send h t l method params = (Inl not_attached, l)"
    and "evaluate h t l sc = (Inl not_attached, l)"
    and "navigateTo h t l url = (Inl not_attached, l)"
    and "goBack h t l = (Inl not_attached, l)"
    and "goForward h t l = (Inl not_attached, l)"
    and "reload h t l = (Inl not_attached, l)"
    and "captureScreenshot h t l format quality clip cbv = (Inl not_attached, l)"
    and "clickAt h t l x y b c = (Inl not_attached, l)"
    and "clickElement h t l selector = (Inl not_attached, l)"
    and "delay = JUndefined \<or> delay = JNum 0 \<or> str \<noteq> [] \<Longrightarrow>
           type h t l str delay = (Inl not_attached, l)"
    and "typeInElement h t l selector str clearFirst delay = (Inl not_attached, l)"
    and "pressKey h t l key = (Inl not_attached, l)"
    and "scroll h t l direction distance = (Inl not_attached, l)"
    and "scrollToElement h t l selector = (Inl not_attached, l)"
    and "scrollTo h t l x y = (Inl not_attached, l)"
    and "getPageInfo h t l = (Inl not_attached, l)"
    and "getViewportSize h t l = (Inl not_attached, l)"
    and "selectOption h t l selector opts = (Inl not_attached, l)"
proof -
  note s = andThen_fails[OF send_detached[OF d]]
  note e = andThen_fails[OF evaluate_not_attached[OF d]]
  show "send h t l method params = (Inl not_attached, l)" by (rule send_detached[OF d])
  show "evaluate h t l sc = (Inl not_attached, l)" by (rule evaluate_not_attached[OF d])
  show "navigateTo h t l url = (Inl not_attached, l)"
    by (simp add: navigateTo_def send_detached[OF d])
  show "goBack h t l = (Inl not_attached, l)" by (simp add: goBack_def s)
  show "goForward h t l = (Inl not_attached, l)" by (simp add: goForward_def s)
  show "reload h t l = (Inl not_attached, l)" by (simp add: reload_def s)
  show "captureScreenshot h t l format quality clip cbv = (Inl not_attached, l)"
    by (simp add: captureScreenshot_def s)
  show "clickAt h t l x y b c = (Inl not_attached, l)" by (rule clickAt_detached[OF d])
  show "clickElement h t l selector = (Inl not_attached, l)" by (rule clickElement_detached[OF d])
  show "type h t l str delay = (Inl not_attached, l)"
    if "delay = JUndefined \<or> delay = JNum 0 \<or> str \<noteq> []"
    using that by (auto simp: type_def s type_chars_detached[OF d])
  show "typeInElement h t l selector str clearFirst delay = (Inl not_attached, l)"
    by (simp add: typeInElement_def andThen_fails[OF clickElement_detached[OF d]])
  show "pressKey h t l key = (Inl not_attached, l)" by (simp add: pressKey_def s)
  show "scroll h t l direction distance = (Inl not_attached, l)"
    by (simp add: scroll_def Let_def s)
  show "scrollToElement h t l selector = (Inl not_attached, l)" by (simp add: scrollToElement_def e)
  show "scrollTo h t l x y = (Inl not_attached, l)" by (simp add: scrollTo_def e)
  show "getPageInfo h t l = (Inl not_attached, l)"
    by (simp add: getPageInfo_def evaluate_not_attached[OF d])
  show "getViewportSize h t l = (Inl not_attached, l)"
    by (simp add: getViewportSize_def evaluate_not_attached[OF d])
  show "selectOption h t l selector opts = (Inl not_attached, l)"
    by (simp add: selectOption_def evaluate_not_attached[OF d])
qed

lemma attached_operations:
  assumes a: "attached t"
  shows "passes_on h l (send h t l method (Params ps))"
    and "passes_on h l (send h t l method NoParams)"
    and "passes_on h l (evaluate h t l sc)"
    and "passes_on h l (navigateTo h t l url)"
    and "passes_on h l (goBack h t l)"
    and "passes_on h l (goForward h t l)"
    and "passes_on h l (reload h t l)"
    and "passes_on h l (captureScreenshot h t l format quality clip cbv)"
    and "passes_on h l (clickAt h t l x y b c)"
    and "passes_on h l (clickElement h t l selector)"
    and "passes_on h l (type h t l str delay)"
    and "passes_on h l (typeInElement h t l selector str clearFirst delay)"
    and "passes_on h l (pressKey h t l key)"
    and "passes_on h l (scroll h t l direction distance)"
    and "passes_on h l (scrollToElement h t l selector)"
    and "passes_on h l (scrollTo h t l x y)"
    and "passes_on h l (getPageInfo h t l)"
    and "passes_on h l (getViewportSize h t l)"
    and "passes_on h l (selectOption h t l selector opts)"
  by (simp_all add: passes_on_send[OF a] passes_on_evaluate[OF a] passes_on_navigateTo[OF a]
        passes_on_goBack[OF a] passes_on_goForward[OF a] passes_on_reload[OF a]
        passes_on_captureScreenshot[OF a] passes_on_clickAt[OF a] passes_on_clickElement[OF a]
        passes_on_type[OF a] passes_on_typeInElement[OF a] passes_on_pressKey[OF a]
        passes_on_scroll[OF a] passes_on_scrollToElement[OF a] passes_on_scrollTo[OF a]
        passes_on_getPageInfo[OF a] passes_on_getViewportSize[OF a] passes_on_selectOption[OF a])


lemma nav_timeout_run:
  "executeAction nav_timeout_ops ''navigate'' (JObj [(''url'', JStr ''https://example.com'')]) =
     (Inr (JObj [(''url'', JStr ''https://example.com/''), (''title'', JStr ''Example Domain'')]),
      [(''getActivePage'', None), (''navigateTo'', None),
       (''waitForNavigation'', Some (Error ''Navigation timeout'')), (''getPageInfo'', None)])"
  by (simp add: executeAction_def call_def call_caught_def nav_timeout_ops_def quiet_ops_def
           cong: if_weak_cong)

lemma empty_error_run:
  "fst (executeAction empty_error_ops ''evaluate'' (JObj [(''script'', JStr ''fail()'')])) =
     Inl (Error [])"
  by (simp add: executeAction_def call_def empty_error_ops_def quiet_ops_def
           cong: if_weak_cong)

lemma nav_refused_run:
  "executeAction nav_refused_ops ''navigate'' (JObj [(''url'', JStr ''nowhere'')]) =
     (Inl (Error ''Cannot navigate to invalid URL''),
      [(''getActivePage'', None),
       (''navigateTo'', Some (Error ''Cannot navigate to invalid URL''))])"
  by (simp add: executeAction_def call_def nav_refused_ops_def quiet_ops_def
           cong: if_weak_cong)


lemma three_ways_append:
  "three_ways i action h (es @ [Message (Response i (Some pl))]) =
     Some (case three_ways i action h es of
             Some x \<Rightarrow> x
           | None \<Rightarrow>
               if success pl then Resolved (data pl)
               else Rejected (Error (case error pl of
                                       None \<Rightarrow> ''Unknown error''
                                     | Some m \<Rightarrow> if m = [] then ''Unknown error'' else m)))"
  by (induction i action h es rule: three_ways.induct) simp_all

lemma call_in_flight:
  assumes c: "peer_connected (run init_bridge es0)"
    and call: "sendToExtension (run init_bridge es0) action params = (r, s1)"
  shows "bridge_inv s1 \<and> r = Inr (mk_id (Suc (requestIdCounter (run init_bridge es0))))
       \<and> map_of (pendingRequests s1) (mk_id (Suc (requestIdCounter (run init_bridge es0)))) =
           Some (nextTimer (run init_bridge es0))
       \<and> (mk_id (Suc (requestIdCounter (run init_bridge es0))), action) \<in> set (sent_ids s1)"
proof -
  define s where "s = run init_bridge es0"
  have inv: "bridge_inv s" unfolding s_def by (rule inv_run[OF inv_init])
  from c obtain ws where ws: "extensionClient s = Some ws" "readyState s ws = OPEN"
    by (auto simp: peer_connected_def s_def split: option.splits)
  note sc = sendToExtension_connected[OF ws, of action params]
  from call have r: "r = Inr (mk_id (Suc (requestIdCounter s)))"
    and s1: "s1 = snd (sendToExtension s action params)"
    by (simp_all add: sc s_def[symmetric])
  have inv1: "bridge_inv s1" unfolding s1 by (rule inv_send[OF inv])
  have p1: "map_of (pendingRequests s1) (mk_id (Suc (requestIdCounter s))) = Some (nextTimer s)"
    by (simp add: s1 sc update_conv')
  have sn1: "(mk_id (Suc (requestIdCounter s)), action) \<in> set (sent_ids s1)"
    by (simp add: s1 sc sent_ids_def)
  from inv1 r p1 sn1 show ?thesis unfolding s_def by blast
qed

lemma answer_after_events:
  assumes c: "peer_connected (run init_bridge es0)"
    and call: "sendToExtension (run init_bridge es0) action params = (Inr j, s1)"
    and p: "map_of (pendingRequests s1) j = Some k"
    and np: "Message (Response j None) \<notin> set es"
  shows "filter (\<lambda>x. fst x = j)
           (settled (run s1 (es @ [Message (Response j (Some (payload_of (failure_response e))))]))) =
         [(j, case three_ways j action k es of
                None \<Rightarrow> Rejected (Error (if message_of e = [] then ''Unknown error''
                                             else message_of e))
              | Some x \<Rightarrow> x)]"
proof -
  note f = call_in_flight[OF c call]
  from f have j: "j = mk_id (Suc (requestIdCounter (run init_bridge es0)))" by simp
  from f have inv1: "bridge_inv s1" and sn1: "(j, action) \<in> set (sent_ids s1)"
    unfolding j by blast+
  have np': "Message (Response j None) \<notin>
               set (es @ [Message (Response j (Some (payload_of (failure_response e))))])"
    using np by simp
  from call_fate[OF inv1 p sn1 np', THEN conjunct1]
  show ?thesis
    unfolding three_ways_append
    by (simp add: payload_of_def failure_response_def split: option.splits)
qed

lemma late_answer_run:
  "settled (run init_bridge
      [Connection 0, Call ''navigate'' (JObj [(''url'', JStr ''nowhere'')]), TimerFires 0,
       Message (Response ''req_1'' (Some (payload_of (handleMCPRequest nav_refused_ops (Inr ())
          (Inr ()) ''navigate'' (JObj [(''url'', JStr ''nowhere'')])))))]) =
     [(''req_1'', Rejected (Error ''Request timeout: navigate''))]"
  by (simp add: bridge_eval)

text \<open>
  Three departures from an error that travels unchanged. A navigation wait that fails with
  \<open>Navigation timeout\<close> is caught inside the \<open>navigate\<close> action, which goes on and
  answers with success. An error whose message is empty does not arrive with that
  message: the bridge puts \<open>Unknown error\<close> in its place. And an error that is answered
  after the call's timer has fired does not arrive at all: the caller was rejected with
  the timeout error and the answer is dropped.
\<close>

theorem navigate_swallows_wait_error_counterexample:
  "executeAction nav_timeout_ops ''navigate'' (JObj [(''url'', JStr ''https://example.com'')]) =
     (Inr (JObj [(''url'', JStr ''https://example.com/''), (''title'', JStr ''Example Domain'')]),
      [(''getActivePage'', None), (''navigateTo'', None),
       (''waitForNavigation'', Some (Error ''Navigation timeout'')), (''getPageInfo'', None)])
   \<and> mcp_success (handleMCPRequest nav_timeout_ops (Inr ()) (Inr ()) ''navigate''
        (JObj [(''url'', JStr ''https://example.com'')]))
   \<and> fst (executeAction empty_error_ops ''evaluate'' (JObj [(''script'', JStr ''fail()'')])) =
       Inl (Error [])
   \<and> settled (onMessage (run init_bridge [Connection 0, Call ''evaluate'' JNull])
        (Response ''req_1'' (Some (payload_of (handleMCPRequest empty_error_ops (Inr ()) (Inr ())
           ''evaluate'' (JObj [(''script'', JStr ''fail()'')])))))) =
       [(''req_1'', Rejected (Error ''Unknown error''))]
   \<and> fst (executeAction nav_refused_ops ''navigate'' (JObj [(''url'', JStr ''nowhere'')])) =
       Inl (Error ''Cannot navigate to invalid URL'')
   \<and> settled (run init_bridge
        [Connection 0, Call ''navigate'' (JObj [(''url'', JStr ''nowhere'')]), TimerFires 0,
         Message (Response ''req_1'' (Some (payload_of (handleMCPRequest nav_refused_ops (Inr ())
            (Inr ()) ''navigate'' (JObj [(''url'', JStr ''nowhere'')])))))]) =
       [(''req_1'', Rejected (Error ''Request timeout: navigate''))]"
proof -
  have p: "or_default (JObj kvs) (JObj []) = JObj kvs" for kvs by (simp add: or_default_def)
  have a: "mcp_success (handleMCPRequest nav_timeout_ops (Inr ()) (Inr ()) ''navigate''
        (JObj [(''url'', JStr ''https://example.com'')]))"
    by (subst handleMCPRequest_success[where result =
          "JObj [(''url'', JStr ''https://example.com/''), (''title'', JStr ''Example Domain'')]"])
       (simp_all add: p nav_timeout_run)
  have h: "handleMCPRequest empty_error_ops (Inr ()) (Inr ()) ''evaluate''
             (JObj [(''script'', JStr ''fail()'')]) = failure_response (Error [])"
    by (rule handleMCPRequest_failure) (simp add: p empty_error_run)
  have pend: "map_of (pendingRequests (run init_bridge [Connection 0, Call ''evaluate'' JNull]))
                ''req_1'' = Some 0"
    by (simp add: bridge_eval)
  have st: "settled (run init_bridge [Connection 0, Call ''evaluate'' JNull]) = []"
    by (simp add: bridge_eval)
  have b: "settled (onMessage (run init_bridge [Connection 0, Call ''evaluate'' JNull])
        (Response ''req_1'' (Some (payload_of (handleMCPRequest empty_error_ops (Inr ()) (Inr ())
           ''evaluate'' (JObj [(''script'', JStr ''fail()'')])))))) =
       [(''req_1'', Rejected (Error ''Unknown error''))]"
    unfolding h response_failure_settles[OF pend] st by (simp add: message_of_def)
  have c: "fst (executeAction nav_refused_ops ''navigate'' (JObj [(''url'', JStr ''nowhere'')])) =
       Inl (Error ''Cannot navigate to invalid URL'')"
    by (simp add: nav_refused_run)
  from nav_timeout_run a empty_error_run b c late_answer_run show ?thesis by (intro conjI)
qed

text \<open>
  Claim C5, as amended. Every error raised by an operation that \<open>executeAction\<close> awaits,
  the navigation wait of the \<open>navigate\<close> action apart, ends \<open>executeAction\<close> with that
  very error. Whatever \<open>executeAction\<close> ends with, \<open>handleMCPRequest\<close> answers
  \<open>success: false\<close> with the error's message, whether or not the overlay messages
  went through. When that answer reaches the bridge while the call is pending, the caller
  is rejected with the message, or with \<open>Unknown error\<close> if the message is empty; when
  the call is no longer pending, the answer changes nothing. So whatever events follow a
  call, no Response without payload for it among them, once the answer has arrived the
  caller is settled exactly once: with the error's message if nothing settled the call
  before, and otherwise as it was settled before, by the timeout in particular. The
  dispatcher returns the error-flagged text \<open>Error: \<close> followed by the message of
  whatever error the bridge call ended with; it returns a result in every case. Below the
  executor, on an attached session every operation of \<open>Page\<close> and \<open>send\<close> itself only
  add host calls, and every error raised on the way, by the host rejecting a command or by
  \<open>evaluate\<close> reading the reply, is the error the operation ends with; on a session that
  is not attached every operation ends with the error of \<open>send\<close> and the host is not
  called (\<open>type\<close> with a delay and no character to send apart, which sends nothing).
  Together: an error raised during an operation that passes errors on, if the executor
  awaited that operation and it is not the navigation wait, is the error
  \<open>executeAction\<close> ends with.
\<close>

theorem errors_reach_dispatcher:
  "((n, Some e) \<in> set (snd (executeAction ops action params)) \<and> n \<noteq> ''waitForNavigation'' \<longrightarrow>
      fst (executeAction ops action params) = Inl e)
   \<and> (passes_on hst hlog res
        \<and> e \<in> set (replay hst hlog (drop (length hlog) (snd res)))
        \<and> (n, case fst res of Inl x \<Rightarrow> Some x | Inr v \<Rightarrow> None)
              \<in> set (snd (executeAction ops action params))
        \<and> n \<noteq> ''waitForNavigation'' \<longrightarrow>
      fst (executeAction ops action params) = Inl e)
   \<and> (fst (executeAction ops action (or_default params (JObj []))) = Inl e \<longrightarrow>
        handleMCPRequest ops show_sent hide_sent action params =
          \<lparr>mcp_success = False, mcp_data = JUndefined, mcp_error = Some (message_of e)\<rparr>
        \<and> (map_of (pendingRequests s) i = Some h \<longrightarrow>
             settled (onMessage s (Response i (Some (payload_of
                (handleMCPRequest ops show_sent hide_sent action params))))) =
               settled s @ [(i, Rejected (Error (if message_of e = [] then ''Unknown error''
                                                 else message_of e)))])
        \<and> (map_of (pendingRequests s) i = None \<longrightarrow>
             onMessage s (Response i (Some (payload_of
                (handleMCPRequest ops show_sent hide_sent action params)))) = s)
        \<and> (peer_connected (run init_bridge es0)
             \<and> sendToExtension (run init_bridge es0) action params = (Inr j, s1)
             \<and> map_of (pendingRequests s1) j = Some k
             \<and> Message (Response j None) \<notin> set es \<longrightarrow>
             filter (\<lambda>x. fst x = j)
               (settled (run s1 (es @ [Message (Response j (Some (payload_of
                  (handleMCPRequest ops show_sent hide_sent action params))))]))) =
               [(j, case three_ways j action k es of
                      None \<Rightarrow> Rejected (Error (if message_of e = [] then ''Unknown error''
                                                   else message_of e))
                    | Some x \<Rightarrow> x)]))
   \<and> callTool tostr stringify name (Inl e') =
        \<lparr>content = [TextContent (''Error: '' @ message_of e')], isError = True\<rparr>
   \<and> (attached t \<longrightarrow>
        passes_on hst hlog (send hst t hlog method (Params ps))
        \<and> passes_on hst hlog (send hst t hlog method NoParams)
        \<and> passes_on hst hlog (evaluate hst t hlog sc)
        \<and> passes_on hst hlog (navigateTo hst t hlog url)
        \<and> passes_on hst hlog (goBack hst t hlog)
        \<and> passes_on hst hlog (goForward hst t hlog)
        \<and> passes_on hst hlog (reload hst t hlog)
        \<and> passes_on hst hlog (captureScreenshot hst t hlog format quality clip cbv)
        \<and> passes_on hst hlog (clickAt hst t hlog x y b c)
        \<and> passes_on hst hlog (clickElement hst t hlog sel)
        \<and> passes_on hst hlog (type hst t hlog str delay)
        \<and> passes_on hst hlog (typeInElement hst t hlog sel str clearFirst delay)
        \<and> passes_on hst hlog (pressKey hst t hlog key)
        \<and> passes_on hst hlog (scroll hst t hlog direction distance)
        \<and> passes_on hst hlog (scrollToElement hst t hlog sel)
        \<and> passes_on hst hlog (scrollTo hst t hlog x y)
        \<and> passes_on hst hlog (getPageInfo hst t hlog)
        \<and> passes_on hst hlog (getViewportSize hst t hlog)
        \<and> passes_on hst hlog (selectOption hst t hlog sel opts))
   \<and> (\<not> attached t \<longrightarrow>
        send hst t hlog method pars = (Inl not_attached, hlog)
        \<and> evaluate hst t hlog sc = (Inl not_attached, hlog)
        \<and> navigateTo hst t hlog url = (Inl not_attached, hlog)
        \<and> goBack hst t hlog = (Inl not_attached, hlog)
        \<and> goForward hst t hlog = (Inl not_attached, hlog)
        \<and> reload hst t hlog = (Inl not_attached, hlog)
        \<and> captureScreenshot hst t hlog format quality clip cbv = (Inl not_attached, hlog)
        \<and> clickAt hst t hlog x y b c = (Inl not_attached, hlog)
        \<and> clickElement hst t hlog sel = (Inl not_attached, hlog)
        \<and> (delay = JUndefined \<or> delay = JNum 0 \<or> str \<noteq> [] \<longrightarrow>
             type hst t hlog str delay = (Inl not_attached, hlog))
        \<and> typeInElement hst t hlog sel str clearFirst delay = (Inl not_attached, hlog)
        \<and> pressKey hst t hlog key = (Inl not_attached, hlog)
        \<and> scroll hst t hlog direction distance = (Inl not_attached, hlog)
        \<and> scrollToElement hst t hlog sel = (Inl not_attached, hlog)
        \<and> scrollTo hst t hlog x y = (Inl not_attached, hlog)
        \<and> getPageInfo hst t hlog = (Inl not_attached, hlog)
        \<and> getViewportSize hst t hlog = (Inl not_attached, hlog)
        \<and> selectOption hst t hlog sel opts = (Inl not_attached, hlog))"
proof -
  have c1: "(n, Some e) \<in> set (snd (executeAction ops action params)) \<and> n \<noteq> ''waitForNavigation'' \<longrightarrow>
      fst (executeAction ops action params) = Inl e"
    using page_errors_end_executeAction by blast
  have c1b: "fst (executeAction ops action params) = Inl e"
    if a: "passes_on hst hlog res
        \<and> e \<in> set (replay hst hlog (drop (length hlog) (snd res)))
        \<and> (n, case fst res of Inl x \<Rightarrow> Some x | Inr v \<Rightarrow> None)
              \<in> set (snd (executeAction ops action params))
        \<and> n \<noteq> ''waitForNavigation''"
  proof -
    from a have "fst res = Inl e" by (simp add: passes_on_def)
    with a have "(n, Some e) \<in> set (snd (executeAction ops action params))" by simp
    with a show ?thesis using page_errors_end_executeAction by blast
  qed
  have c2: "handleMCPRequest ops show_sent hide_sent action params =
          \<lparr>mcp_success = False, mcp_data = JUndefined, mcp_error = Some (message_of e)\<rparr>
        \<and> (map_of (pendingRequests s) i = Some h \<longrightarrow>
             settled (onMessage s (Response i (Some (payload_of
                (handleMCPRequest ops show_sent hide_sent action params))))) =
               settled s @ [(i, Rejected (Error (if message_of e = [] then ''Unknown error''
                                                 else message_of e)))])
        \<and> (map_of (pendingRequests s) i = None \<longrightarrow>
             onMessage s (Response i (Some (payload_of
                (handleMCPRequest ops show_sent hide_sent action params)))) = s)
        \<and> (peer_connected (run init_bridge es0)
             \<and> sendToExtension (run init_bridge es0) action params = (Inr j, s1)
             \<and> map_of (pendingRequests s1) j = Some k
             \<and> Message (Response j None) \<notin> set es \<longrightarrow>
             filter (\<lambda>x. fst x = j)
               (settled (run s1 (es @ [Message (Response j (Some (payload_of
                  (handleMCPRequest ops show_sent hide_sent action params))))]))) =
               [(j, case three_ways j action k es of
                      None \<Rightarrow> Rejected (Error (if message_of e = [] then ''Unknown error''
                                                   else message_of e))
                    | Some x \<Rightarrow> x)])"
    if a: "fst (executeAction ops action (or_default params (JObj []))) = Inl e"
  proof -
    note f = handleMCPRequest_failure[OF a, of show_sent hide_sent]
    have r: "handleMCPRequest ops show_sent hide_sent action params =
          \<lparr>mcp_success = False, mcp_data = JUndefined, mcp_error = Some (message_of e)\<rparr>"
      using f by (simp add: failure_response_def)
    have p: "settled (onMessage s (Response i (Some (payload_of
                (handleMCPRequest ops show_sent hide_sent action params))))) =
               settled s @ [(i, Rejected (Error (if message_of e = [] then ''Unknown error''
                                                 else message_of e)))]"
      if "map_of (pendingRequests s) i = Some h"
      unfolding f by (rule response_failure_settles[OF that])
    have q: "onMessage s (Response i (Some (payload_of
                (handleMCPRequest ops show_sent hide_sent action params)))) = s"
      if "map_of (pendingRequests s) i = None"
      by (rule message_unknown_id[OF that])
    have u: "filter (\<lambda>x. fst x = j)
               (settled (run s1 (es @ [Message (Response j (Some (payload_of
                  (handleMCPRequest ops show_sent hide_sent action params))))]))) =
               [(j, case three_ways j action k es of
                      None \<Rightarrow> Rejected (Error (if message_of e = [] then ''Unknown error''
                                                   else message_of e))
                    | Some x \<Rightarrow> x)]"
      if "peer_connected (run init_bridge es0)
             \<and> sendToExtension (run init_bridge es0) action params = (Inr j, s1)
             \<and> map_of (pendingRequests s1) j = Some k
             \<and> Message (Response j None) \<notin> set es"
      unfolding f using that answer_after_events by blast
    from r p q u show ?thesis by blast
  qed
  have c3: "callTool tostr stringify name (Inl e') =
        \<lparr>content = [TextContent (''Error: '' @ message_of e')], isError = True\<rparr>"
    by (rule callTool_error)
  have c4: "passes_on hst hlog (send hst t hlog method (Params ps))
        \<and> passes_on hst hlog (send hst t hlog method NoParams)
        \<and> passes_on hst hlog (evaluate hst t hlog sc)
        \<and> passes_on hst hlog (navigateTo hst t hlog url)
        \<and> passes_on hst hlog (goBack hst t hlog)
        \<and> passes_on hst hlog (goForward hst t hlog)
        \<and> passes_on hst hlog (reload hst t hlog)
        \<and> passes_on hst hlog (captureScreenshot hst t hlog format quality clip cbv)
        \<and> passes_on hst hlog (clickAt hst t hlog x y b c)
        \<and> passes_on hst hlog (clickElement hst t hlog sel)
        \<and> passes_on hst hlog (type hst t hlog str delay)
        \<and> passes_on hst hlog (typeInElement hst t hlog sel str clearFirst delay)
        \<and> passes_on hst hlog (pressKey hst t hlog key)
        \<and> passes_on hst hlog (scroll hst t hlog direction distance)
        \<and> passes_on hst hlog (scrollToElement hst t hlog sel)
        \<and> passes_on hst hlog (scrollTo hst t hlog x y)
        \<and> passes_on hst hlog (getPageInfo hst t hlog)
        \<and> passes_on hst hlog (getViewportSize hst t hlog)
        \<and> passes_on hst hlog (selectOption hst t hlog sel opts)"
    if a: "attached t"
    by (intro conjI attached_operations[OF a])
  have c5: "send hst t hlog method pars = (Inl not_attached, hlog)
        \<and> evaluate hst t hlog sc = (Inl not_attached, hlog)
        \<and> navigateTo hst t hlog url = (Inl not_attached, hlog)
        \<and> goBack hst t hlog = (Inl not_attached, hlog)
        \<and> goForward hst t hlog = (Inl not_attached, hlog)
        \<and> reload hst t hlog = (Inl not_attached, hlog)
        \<and> captureScreenshot hst t hlog format quality clip cbv = (Inl not_attached, hlog)
        \<and> clickAt hst t hlog x y b c = (Inl not_attached, hlog)
        \<and> clickElement hst t hlog sel = (Inl not_attached, hlog)
        \<and> (delay = JUndefined \<or> delay = JNum 0 \<or> str \<noteq> [] \<longrightarrow>
             type hst t hlog str delay = (Inl not_attached, hlog))
        \<and> typeInElement hst t hlog sel str clearFirst delay = (Inl not_attached, hlog)
        \<and> pressKey hst t hlog key = (Inl not_attached, hlog)
        \<and> scroll hst t hlog direction distance = (Inl not_attached, hlog)
        \<and> scrollToElement hst t hlog sel = (Inl not_attached, hlog)
        \<and> scrollTo hst t hlog x y = (Inl not_attached, hlog)
        \<and> getPageInfo hst t hlog = (Inl not_attached, hlog)
        \<and> getViewportSize hst t hlog = (Inl not_attached, hlog)
        \<and> selectOption hst t hlog sel opts = (Inl not_attached, hlog)"
    if d: "\<not> attached t"
    by (intro conjI impI detached_operations[OF d])
  show ?thesis
    by (rule conjI[OF c1 conjI[OF impI[OF c1b]
          conjI[OF impI[OF c2] conjI[OF c3 conjI[OF impI[OF c4] impI[OF c5]]]]]])
qed

theorem errors_reach_dispatcher_witness:
  "fst (executeAction nav_refused_ops ''navigate'' (JObj [(''url'', JStr ''nowhere'')])) =
     Inl (Error ''Cannot navigate to invalid URL'')
   \<and> handleMCPRequest nav_refused_ops (Inl NonError) (Inl NonError) ''navigate''
        (JObj [(''url'', JStr ''nowhere'')]) =
       \<lparr>mcp_success = False, mcp_data = JUndefined,
        mcp_error = Some ''Cannot navigate to invalid URL''\<rparr>
   \<and> settled (onMessage (run init_bridge [Connection 0, Call ''navigate'' JNull])
        (Response ''req_1'' (Some (payload_of (handleMCPRequest nav_refused_ops (Inl NonError)
           (Inl NonError) ''navigate'' (JObj [(''url'', JStr ''nowhere'')])))))) =
       [(''req_1'', Rejected (Error ''Cannot navigate to invalid URL''))]
   \<and> filter (\<lambda>x. fst x = ''req_1'')
        (settled (run (snd (sendToExtension (run init_bridge [Connection 0]) ''navigate''
                              (JObj [(''url'', JStr ''nowhere'')])))
           ([TimerFires 0] @
            [Message (Response ''req_1'' (Some (payload_of (handleMCPRequest nav_refused_ops
               (Inl NonError) (Inl NonError) ''navigate''
               (JObj [(''url'', JStr ''nowhere'')])))))]))) =
       [(''req_1'', Rejected (Error ''Request timeout: navigate''))]
   \<and> callTool (\<lambda>v. []) (\<lambda>v. []) ''browser_navigate''
        (Inl (Error ''Cannot navigate to invalid URL'')) =
       \<lparr>content = [TextContent ''Error: Cannot navigate to invalid URL''], isError = True\<rparr>
   \<and> evaluate (\<lambda>l c. Inr JNull) (new_transport 1) [] (OtherScript ''1'') =
       (Inl (Error ''Debugger not attached''), [])
   \<and> fst (clickAt refuses_press ((new_transport 1)\<lparr>attached := True\<rparr>) []
          (JNum 1) (JNum 2) JUndefined JUndefined) =
       Inl (Error ''Detached while handling command.'')
   \<and> fst (clickElement refuses_press ((new_transport 1)\<lparr>attached := True\<rparr>) [] ''#a'') =
       Inl (Error ''Detached while handling command.'')
   \<and> fst (executeAction
          (quiet_ops\<lparr>op_clickElement :=
             (\<lambda>sel. fst (clickElement refuses_press ((new_transport 1)\<lparr>attached := True\<rparr>) []
                          ''#a''))\<rparr>)
          ''click'' (JObj [(''selector'', JStr ''#a'')])) =
       Inl (Error ''Detached while handling command.'')"
proof -
  define P where "P = JObj [(''url'', JStr ''nowhere'')]"
  define E where "E = Error ''Cannot navigate to invalid URL''"
  define s where "s = run init_bridge [Connection 0, Call ''navigate'' JNull]"
  define s1 where "s1 = snd (sendToExtension (run init_bridge [Connection 0]) ''navigate'' P)"
  have p: "or_default P (JObj []) = P" by (simp add: or_default_def P_def)
  have m: "message_of E = ''Cannot navigate to invalid URL''" by (simp add: message_of_def E_def)
  have tr: "(''navigateTo'', Some E) \<in> set (snd (executeAction nav_refused_ops ''navigate'' P))
            \<and> ''navigateTo'' \<noteq> ''waitForNavigation''"
    unfolding P_def E_def nav_refused_run by simp
  have pend: "map_of (pendingRequests s) ''req_1'' = Some 0" by (simp add: s_def bridge_eval)
  have st: "settled s = []" by (simp add: s_def bridge_eval)
  have fl: "peer_connected (run init_bridge [Connection 0])
             \<and> sendToExtension (run init_bridge [Connection 0]) ''navigate'' P = (Inr ''req_1'', s1)
             \<and> map_of (pendingRequests s1) ''req_1'' = Some 0
             \<and> Message (Response ''req_1'' None) \<notin> set [TimerFires 0]"
    by (simp add: s1_def bridge_eval)
  note inst = errors_reach_dispatcher
    [where ops = nav_refused_ops and action = "''navigate''" and params = P and e = E
       and n = "''navigateTo''" and show_sent = "Inl NonError" and hide_sent = "Inl NonError"
       and s = s and i = "''req_1''" and h = 0 and tostr = "\<lambda>v. []" and stringify = "\<lambda>v. []"
       and name = "''browser_navigate''" and e' = E and t = "new_transport 1"
       and hst = "\<lambda>l c. Inr JNull" and hlog = "[]" and sc = "OtherScript ''1''"
       and ?es0.0 = "[Connection 0]" and j = "''req_1''" and ?s1.0 = s1 and k = 0
       and es = "[TimerFires 0]"]
  note c1 = inst[THEN conjunct1, THEN mp, OF tr]
  have c1': "fst (executeAction nav_refused_ops ''navigate'' (or_default P (JObj []))) = Inl E"
    using c1 by (simp only: p)
  note c2 = inst[THEN conjunct2, THEN conjunct2, THEN conjunct1, THEN mp, OF c1']
  note c2a = c2[THEN conjunct1]
  note c2b = c2[THEN conjunct2, THEN conjunct1, THEN mp, OF pend]
  note c2d = c2[THEN conjunct2, THEN conjunct2, THEN conjunct2, THEN mp, OF fl]
  have tw: "three_ways ''req_1'' ''navigate'' 0 [TimerFires 0] =
              Some (Rejected (Error ''Request timeout: navigate''))" by simp
  note c3 = inst[THEN conjunct2, THEN conjunct2, THEN conjunct2, THEN conjunct1]
  have na: "\<not> attached (new_transport 1)" by (simp add: new_transport_def)
  note c5 = inst[THEN conjunct2, THEN conjunct2, THEN conjunct2, THEN conjunct2, THEN conjunct2,
      THEN mp, OF na,
      THEN conjunct2, THEN conjunct1]
  have q: "(''Error: '' @ ''Cannot navigate to invalid URL'') = ''Error: Cannot navigate to invalid URL''"
    by simp
  define T where "T = (new_transport 1)\<lparr>attached := True\<rparr>"
  define G where "G = Error ''Detached while handling command.''"
  define ev where "ev = DebuggerSendCommand 1 ''Runtime.evaluate''
                          (Evaluate (ClickElementScript ''#a'' ''#a''))"
  define mv where "mv = DebuggerSendCommand 1 dispatchMouseEvent (mouseMoved (JNum 1) (JNum 2))"
  define pr where "pr = DebuggerSendCommand 1 dispatchMouseEvent
                          (mousePressed (JNum 1) (JNum 2) (JStr ''left'') (JNum 1))"
  have at: "attached T" and tb: "tabId T = 1" by (simp_all add: T_def new_transport_def)
  have hv: "refuses_press l ev =
              Inr (JObj [(''result'', JObj [(''value'', JObj [(''x'', JNum 1), (''y'', JNum 2)])])])"
    and hm: "refuses_press l mv = Inr (JObj [])" and hp: "refuses_press l pr = Inl G" for l
    by (simp_all add: refuses_press_def ev_def mv_def pr_def mouseMoved_def mousePressed_def G_def)
  note inst' = errors_reach_dispatcher
    [where t = T and hst = refuses_press and hlog = "[]" and sel = "''#a''" and x = "JNum 1"
       and y = "JNum 2" and b = JUndefined and c = JUndefined]
  note c4 = inst'[THEN conjunct2, THEN conjunct2, THEN conjunct2, THEN conjunct2, THEN conjunct1,
      THEN mp, OF at]
  note pa = c4[THEN conjunct2, THEN conjunct2, THEN conjunct2, THEN conjunct2, THEN conjunct2,
      THEN conjunct2, THEN conjunct2, THEN conjunct2, THEN conjunct1]
  note pe = c4[THEN conjunct2, THEN conjunct2, THEN conjunct2, THEN conjunct2, THEN conjunct2,
      THEN conjunct2, THEN conjunct2, THEN conjunct2, THEN conjunct2, THEN conjunct1]
  have ca: "clickAt refuses_press T [] (JNum 1) (JNum 2) JUndefined JUndefined = (Inl G, [mv, pr])"
    unfolding clickAt_andThen
    by (simp add: andThen_def send_attached[OF at] tb mv_def[symmetric] pr_def[symmetric] hm hp)
  have rv: "raised refuses_press l ev = []" for l
    by (simp add: raised_def hv nullish_def) (simp add: ev_def)
  have rm: "raised refuses_press l mv = []" for l
    by (simp add: raised_def hm) (simp add: mv_def mouseMoved_def)
  have rp: "raised refuses_press l pr = [G]" for l by (simp add: raised_def hp)
  have ra: "replay refuses_press [] [mv, pr] = [G]" by (simp add: rm rp)
  have "\<forall>e \<in> set (replay refuses_press [] [mv, pr]).
          fst (clickAt refuses_press T [] (JNum 1) (JNum 2) JUndefined JUndefined) = Inl e"
    using pa by (simp add: passes_on_def ca del: replay.simps)
  then have fa: "fst (clickAt refuses_press T [] (JNum 1) (JNum 2) JUndefined JUndefined) = Inl G"
    unfolding ra by simp
  have ce: "snd (clickElement refuses_press T [] ''#a'') = [ev, mv, pr]"
    unfolding clickElement_andThen clickAt_andThen
    by (simp add: andThen_def evaluate_def send_attached[OF at] tb ev_def[symmetric] hv
          nullish_def mv_def[symmetric] pr_def[symmetric] hm hp)
  have re: "replay refuses_press [] [ev, mv, pr] = [G]" by (simp add: rv rm rp)
  have "\<forall>e \<in> set (replay refuses_press [] [ev, mv, pr]).
          fst (clickElement refuses_press T [] ''#a'') = Inl e"
    using pe by (simp add: passes_on_def ce del: replay.simps)
  then have fe: "fst (clickElement refuses_press T [] ''#a'') = Inl G"
    unfolding re by simp
  have first: "fst (executeAction nav_refused_ops ''navigate'' (JObj [(''url'', JStr ''nowhere'')])) =
     Inl (Error ''Cannot navigate to invalid URL'')
   \<and> handleMCPRequest nav_refused_ops (Inl NonError) (Inl NonError) ''navigate''
        (JObj [(''url'', JStr ''nowhere'')]) =
       \<lparr>mcp_success = False, mcp_data = JUndefined,
        mcp_error = Some ''Cannot navigate to invalid URL''\<rparr>
   \<and> settled (onMessage (run init_bridge [Connection 0, Call ''navigate'' JNull])
        (Response ''req_1'' (Some (payload_of (handleMCPRequest nav_refused_ops (Inl NonError)
           (Inl NonError) ''navigate'' (JObj [(''url'', JStr ''nowhere'')])))))) =
       [(''req_1'', Rejected (Error ''Cannot navigate to invalid URL''))]
   \<and> callTool (\<lambda>v. []) (\<lambda>v. []) ''browser_navigate''
        (Inl (Error ''Cannot navigate to invalid URL'')) =
       \<lparr>content = [TextContent ''Error: Cannot navigate to invalid URL''], isError = True\<rparr>"
    using c1 c2a c2b c3 unfolding m st by (simp add: q P_def E_def s_def)
  have late: "filter (\<lambda>x. fst x = ''req_1'')
        (settled (run (snd (sendToExtension (run init_bridge [Connection 0]) ''navigate''
                              (JObj [(''url'', JStr ''nowhere'')])))
           ([TimerFires 0] @
            [Message (Response ''req_1'' (Some (payload_of (handleMCPRequest nav_refused_ops
               (Inl NonError) (Inl NonError) ''navigate''
               (JObj [(''url'', JStr ''nowhere'')])))))]))) =
       [(''req_1'', Rejected (Error ''Request timeout: navigate''))]"
    using c2d unfolding tw by (simp add: s1_def P_def)
  have det: "evaluate (\<lambda>l c. Inr JNull) (new_transport 1) [] (OtherScript ''1'') =
       (Inl (Error ''Debugger not attached''), [])"
    using c5 by (simp add: not_attached_def)
  have fa': "fst (clickAt refuses_press ((new_transport 1)\<lparr>attached := True\<rparr>) []
          (JNum 1) (JNum 2) JUndefined JUndefined) =
       Inl (Error ''Detached while handling command.'')"
    using fa unfolding T_def G_def .
  have fe': "fst (clickElement refuses_press ((new_transport 1)\<lparr>attached := True\<rparr>) [] ''#a'') =
       Inl (Error ''Detached while handling command.'')"
    using fe unfolding T_def G_def .
  define ops' where "ops' = quiet_ops\<lparr>op_clickElement :=
             (\<lambda>sel. fst (clickElement refuses_press T [] ''#a''))\<rparr>"
  define P' where "P' = JObj [(''selector'', JStr ''#a'')]"
  have tr': "snd (executeAction ops' ''click'' P') =
               [(''getActivePage'', None), (''clickElement'', Some G)]"
    by (simp add: executeAction_def call_def ops'_def quiet_ops_def P'_def fe
          cong: if_weak_cong)
  have hyp: "passes_on refuses_press [] (clickElement refuses_press T [] ''#a'')
        \<and> G \<in> set (replay refuses_press []
                      (drop (length ([] :: host_call list))
                         (snd (clickElement refuses_press T [] ''#a''))))
        \<and> (''clickElement'',
            case fst (clickElement refuses_press T [] ''#a'') of
              Inl x \<Rightarrow> Some x | Inr v \<Rightarrow> None)
              \<in> set (snd (executeAction ops' ''click'' P'))
        \<and> ''clickElement'' \<noteq> ''waitForNavigation''"
    using pe by (simp add: ce re fe tr' del: replay.simps)
  note inst2 = errors_reach_dispatcher
    [where hst = refuses_press and hlog = "[]" and res = "clickElement refuses_press T [] ''#a''"
       and e = G and n = "''clickElement''" and ops = ops' and action = "''click''"
       and params = P']
  note e2e = inst2[THEN conjunct2, THEN conjunct1, THEN mp, OF hyp]
  have e2e': "fst (executeAction
          (quiet_ops\<lparr>op_clickElement :=
             (\<lambda>sel. fst (clickElement refuses_press ((new_transport 1)\<lparr>attached := True\<rparr>) []
                          ''#a''))\<rparr>)
          ''click'' (JObj [(''selector'', JStr ''#a'')])) =
       Inl (Error ''Detached while handling command.'')"
    using e2e unfolding ops'_def P'_def T_def G_def .
  show ?thesis
    by (insert first late det fa' fe' e2e', elim conjE, intro conjI; assumption)
qed

end
